theory Spec2Isabelle
  imports Complex_Main
begin

section \<open>Conventions\<close>

text \<open>
  JavaScript numbers are modelled as exact numbers: a time in seconds is a \<^typ>\<open>real\<close>,
  a counter is a \<^typ>\<open>nat\<close> or an \<^typ>\<open>int\<close>.  Rounding of IEEE doubles and the
  exponent notation that \<^verbatim>\<open>Number.prototype.toString\<close> uses from \<open>10^21\<close> on are
  outside the model.  A promise that rejects and a \<^verbatim>\<open>throw\<close> are the \<open>Inl\<close> branch
  of a sum; the value thrown is either an \<^verbatim>\<open>Error\<close> made by this code, with its
  message, or a value that came from the environment (the inference service, the media
  element, the camera).
\<close>

datatype 'x js_error =
    Error string   \<comment> \<open>\<^verbatim>\<open>new Error(message)\<close> made by the code of this repository\<close>
  | SyntaxError    \<comment> \<open>what \<^verbatim>\<open>JSON.parse\<close> throws on a text that is not JSON\<close>
  | Thrown 'x      \<comment> \<open>a value thrown or rejected by the environment\<close>

section \<open>utils/mediaUtils.ts: formatTime\<close>

text \<open>The operator \<^verbatim>\<open>%\<close> of JavaScript: the remainder takes the sign of the dividend.\<close>

definition js_rem :: "real \<Rightarrow> real \<Rightarrow> real" where
  "js_rem x y = x - y * of_int (if x / y < 0 then \<lceil>x / y\<rceil> else \<lfloor>x / y\<rfloor>)"

definition digit_char :: "nat \<Rightarrow> char" where
  "digit_char d = ''0123456789'' ! d"

function digits :: "nat \<Rightarrow> string" where
  "digits n = (if n < 10 then [digit_char n] else digits (n div 10) @ [digit_char (n mod 10)])"
  by pat_completeness auto
termination
  by (relation "measure (\<lambda>n. n)") auto

declare digits.simps [simp del]

text \<open>\<^verbatim>\<open>n.toString()\<close> for an integral number \<open>n\<close>.\<close>

definition toString :: "int \<Rightarrow> string" where
  "toString n = (if n < 0 then CHR ''-'' # digits (nat (- n)) else digits (nat n))"

text \<open>\<^verbatim>\<open>s.padStart(n, c)\<close> for a one-character filler.\<close>

definition padStart :: "nat \<Rightarrow> char \<Rightarrow> string \<Rightarrow> string" where
  "padStart n c s = replicate (n - length s) c @ s"

definition formatTime :: "real \<Rightarrow> string" where
  "formatTime seconds =
     (let mins = \<lfloor>seconds / 60\<rfloor>;
          secs = \<lfloor>js_rem seconds 60\<rfloor>
      in padStart 2 CHR ''0'' (toString mins) @ '':'' @ padStart 2 CHR ''0'' (toString secs))"

text \<open>
  Reading a rendered component back: the value of a string of decimal digits.  It is
  defined independently of \<^const>\<open>digits\<close>, for stating what \<^const>\<open>formatTime\<close> prints.
\<close>

definition is_digit :: "char \<Rightarrow> bool" where
  "is_digit c \<longleftrightarrow> c \<in> set ''0123456789''"

definition digit_value :: "char \<Rightarrow> nat" where
  "digit_value c = of_char c - 48"

definition decimal_value :: "string \<Rightarrow> nat" where
  "decimal_value s = foldl (\<lambda>acc c. 10 * acc + digit_value c) 0 s"

section \<open>utils/mediaUtils.ts: extractFramesFromVideo\<close>

record ExtractedFrame =
  timestamp :: real
  base64 :: string

text \<open>
  What the browser does with the file, as far as \<^verbatim>\<open>extractFramesFromVideo\<close> observes it:
  whether \<^verbatim>\<open>loadedmetadata\<close> fires (otherwise \<^verbatim>\<open>error\<close> does), the duration it then
  reports, whether the canvas gives a 2d context, and what setting
  \<^verbatim>\<open>video.currentTime\<close> leads to: \<^verbatim>\<open>seeked\<close>, after which the canvas encodes the
  picture (\<open>Inr\<close>, the data URL after its comma), or an \<^verbatim>\<open>error\<close> event (\<open>Inl\<close>).
\<close>

record 'x video_file =
  loads :: bool
  duration :: real
  context2d :: bool
  seek :: "real \<Rightarrow> 'x + string"

definition interval :: real where
  "interval = 3"

definition maxFrames :: nat where
  "maxFrames = 10"

text \<open>
  \<^verbatim>\<open>captureFrame\<close> and the \<^verbatim>\<open>onseeked\<close> handler that calls it again, as one loop over
  \<^verbatim>\<open>currentTime\<close>, \<^verbatim>\<open>frameCount\<close> and \<^verbatim>\<open>frames\<close>; the last argument collects the
  values passed to \<^verbatim>\<open>onProgress\<close>.
\<close>

function captureFrame ::
  "'x video_file \<Rightarrow> real \<Rightarrow> nat \<Rightarrow> ExtractedFrame list \<Rightarrow> int list
     \<Rightarrow> ('x js_error + ExtractedFrame list) \<times> int list" where
  "captureFrame video currentTime frameCount frames progress =
     (if currentTime > duration video \<or> frameCount \<ge> maxFrames then (Inr frames, progress)
      else case seek video currentTime of
          Inl e \<Rightarrow> (Inl (Thrown e), progress)
        | Inr payload \<Rightarrow>
            if context2d video then
              captureFrame video (currentTime + interval) (frameCount + 1)
                (frames @ [\<lparr>timestamp = currentTime, base64 = payload\<rparr>])
                (progress @ [min 100 (round (real (frameCount + 1) / real maxFrames * 100))])
            else (Inl (Error ''Could not get canvas context''), progress))"
  by pat_completeness auto
termination
  by (relation "measure (\<lambda>(video, currentTime, frameCount, frames, progress). maxFrames - frameCount)")
    auto

declare captureFrame.simps [simp del]

definition extractFramesFromVideo ::
  "'x video_file \<Rightarrow> ('x js_error + ExtractedFrame list) \<times> int list" where
  "extractFramesFromVideo video =
     (if loads video then captureFrame video 0 0 [] []
      else (Inl (Error ''Failed to load video file''), []))"

text \<open>
  The frame that the \<open>k\<close>-th pass of the loop pushes when the seek to \<open>3 * k\<close> succeeds,
  and a file of a given duration on which every step succeeds (used to run the sampler
  on concrete inputs).
\<close>

definition sampled :: "'x video_file \<Rightarrow> nat \<Rightarrow> ExtractedFrame" where
  "sampled video k = \<lparr>timestamp = 3 * real k, base64 = projr (seek video (3 * real k))\<rparr>"

definition playable :: "real \<Rightarrow> unit video_file" where
  "playable D = \<lparr>loads = True, duration = D, context2d = True, seek = (\<lambda>t. Inr ''jpeg'')\<rparr>"

section \<open>utils/retry.ts (src/unnamed/part_000): withExponentialBackoff\<close>

text \<open>
  The operation \<open>fn\<close> is a call into the environment: it takes the environment's state and
  returns its outcome with the new state.  The second component of the state pair lists
  the delays handed to \<^verbatim>\<open>setTimeout\<close> so far, in milliseconds.
\<close>

function withExponentialBackoff ::
  "('s \<Rightarrow> ('e + 'a) \<times> 's) \<Rightarrow> int \<Rightarrow> int \<Rightarrow> 's \<times> int list \<Rightarrow> ('e + 'a) \<times> 's \<times> int list" where
  "withExponentialBackoff fn retries delay (s, slept) =
     (case fn s of
        (Inr v, s') \<Rightarrow> (Inr v, s', slept)
      | (Inl error, s') \<Rightarrow>
          if retries \<le> 0 then (Inl error, s', slept)
          else withExponentialBackoff fn (retries - 1) (delay * 2) (s', slept @ [delay]))"
  by pat_completeness auto
termination
  by (relation "measure (\<lambda>(fn, retries, delay, w). nat retries)") auto

declare withExponentialBackoff.simps [simp del]

text \<open>
  An operation for running the wrapper on concrete inputs: its state counts the
  invocations; it fails on the first \<open>k\<close> of them, with the count as the error, and
  succeeds from then on.
\<close>

definition flaky :: "nat \<Rightarrow> nat \<Rightarrow> (nat + string) \<times> nat" where
  "flaky k n = (if n < k then Inl n else Inr ''ok'', n + 1)"

section \<open>services/geminiService.ts: analyzeVideoFrames\<close>

text \<open>
  \<^verbatim>\<open>VideoFrameAnalysis\<close> of types.ts.  Its field \<^verbatim>\<open>timestamp\<close> is the formatted time; it is
  called \<open>timeStr\<close> here, after the variable that fills it, since \<open>timestamp\<close> is the
  field of \<^typ>\<open>ExtractedFrame\<close>.
\<close>

record VideoFrameAnalysis =
  timeStr :: string
  analysis :: string

record VideoAnalysisResult =
  frames :: "VideoFrameAnalysis list"
  finalReport :: string

text \<open>
  The argument of \<^verbatim>\<open>chat.sendMessage\<close>: an inline JPEG with a prompt, or a text alone.
\<close>

datatype message = ImageAndText string string | Text string

text \<open>
  The chat session is the environment: \<open>sendMessage m c\<close> is the outcome of sending \<open>m\<close>
  in the session state \<open>c\<close>, a rejection (\<open>Inl\<close>) or a response whose \<^verbatim>\<open>text\<close> is a string
  or \<^verbatim>\<open>undefined\<close> (\<open>None\<close>), with the session state afterwards.  What a run does is
  recorded in a trace: each call of \<^verbatim>\<open>chat.sendMessage\<close> with its outcome, and each call
  of the callback \<^verbatim>\<open>onFrameAnalyzed\<close>.
\<close>

datatype 'x event =
    Inference message "'x + string option"
  | FrameAnalyzed VideoFrameAnalysis

record ('c, 'x) world =
  chat :: 'c
  trace :: "'x event list"

definition chat_send ::
  "(message \<Rightarrow> 'c \<Rightarrow> ('x + string option) \<times> 'c) \<Rightarrow> message \<Rightarrow> ('c, 'x) world
     \<Rightarrow> ('x + string option) \<times> ('c, 'x) world" where
  "chat_send sendMessage m w =
     (case sendMessage m (chat w) of
        (r, c') \<Rightarrow> (r, w\<lparr>chat := c', trace := trace w @ [Inference m r]\<rparr>))"

text \<open>\<^verbatim>\<open>text || fallback\<close>: the fallback replaces \<^verbatim>\<open>undefined\<close> and the empty string.\<close>

definition or_default :: "string option \<Rightarrow> string \<Rightarrow> string" where
  "or_default text fallback =
     (case text of None \<Rightarrow> fallback | Some t \<Rightarrow> if t = [] then fallback else t)"

definition framePrompt :: "nat \<Rightarrow> string \<Rightarrow> string" where
  "framePrompt i t =
     (if i = 0 then ''Frame at '' @ t @ ''. Identify objects and describe the initial scene.''
      else ''Frame at '' @ t @
        ''. Identify objects and note any changes (movement, appearance, disappearance) compared to previous frames.'')"

definition frameMessage :: "nat \<Rightarrow> ExtractedFrame \<Rightarrow> message" where
  "frameMessage i frame = ImageAndText (base64 frame) (framePrompt i (formatTime (timestamp frame)))"

definition reportMessage :: message where
  "reportMessage = Text
     ''Create a final, cohesive Video Analysis Report summarizing the progression of the scene, key actions, and object movements based on all processed frames.''"

text \<open>
  The retry-wrapped call for frame \<open>i\<close> (the value of \<^verbatim>\<open>analysisText\<close>) and the one for
  the final report (\<^verbatim>\<open>finalReportText\<close>), both with the default budget.
\<close>

definition frameInference ::
  "(message \<Rightarrow> 'c \<Rightarrow> ('x + string option) \<times> 'c) \<Rightarrow> nat \<Rightarrow> ExtractedFrame
     \<Rightarrow> ('c, 'x) world \<times> int list \<Rightarrow> ('x + string option) \<times> ('c, 'x) world \<times> int list" where
  "frameInference sendMessage i frame = withExponentialBackoff (chat_send sendMessage (frameMessage i frame)) 3 1000"

definition reportInference ::
  "(message \<Rightarrow> 'c \<Rightarrow> ('x + string option) \<times> 'c)
     \<Rightarrow> ('c, 'x) world \<times> int list \<Rightarrow> ('x + string option) \<times> ('c, 'x) world \<times> int list" where
  "reportInference sendMessage = withExponentialBackoff (chat_send sendMessage reportMessage) 3 1000"

definition frameResult :: "ExtractedFrame \<Rightarrow> string option \<Rightarrow> VideoFrameAnalysis" where
  "frameResult frame analysisText =
     \<lparr>timeStr = formatTime (timestamp frame),
      analysis = or_default analysisText ''No analysis provided.''\<rparr>"

text \<open>
  The \<^verbatim>\<open>for\<close> loop, from index \<open>i\<close> over the frames not yet processed, with
  \<^verbatim>\<open>frameResults\<close> as accumulated so far.  A rejection of the retry-wrapped call leaves
  the function.
\<close>

fun analyzeLoop ::
  "(message \<Rightarrow> 'c \<Rightarrow> ('x + string option) \<times> 'c) \<Rightarrow> nat \<Rightarrow> ExtractedFrame list
     \<Rightarrow> VideoFrameAnalysis list \<Rightarrow> ('c, 'x) world \<times> int list
     \<Rightarrow> ('x + VideoFrameAnalysis list) \<times> ('c, 'x) world \<times> int list" where
  "analyzeLoop sendMessage i [] frameResults (w, slept) = (Inr frameResults, w, slept)"
| "analyzeLoop sendMessage i (frame # rest) frameResults (w, slept) =
     (case frameInference sendMessage i frame (w, slept) of
        (Inl e, w', slept') \<Rightarrow> (Inl e, w', slept')
      | (Inr analysisText, w', slept') \<Rightarrow>
          analyzeLoop sendMessage (i + 1) rest
            (frameResults @ [frameResult frame analysisText])
            (w'\<lparr>trace := trace w' @ [FrameAnalyzed (frameResult frame analysisText)]\<rparr>, slept'))"

definition analyzeVideoFrames ::
  "(message \<Rightarrow> 'c \<Rightarrow> ('x + string option) \<times> 'c) \<Rightarrow> ExtractedFrame list
     \<Rightarrow> ('c, 'x) world \<times> int list
     \<Rightarrow> ('x + VideoAnalysisResult) \<times> ('c, 'x) world \<times> int list" where
  "analyzeVideoFrames sendMessage fs ws =
     (case analyzeLoop sendMessage 0 fs [] ws of
        (Inl e, ws') \<Rightarrow> (Inl e, ws')
      | (Inr frameResults, ws') \<Rightarrow>
          (case reportInference sendMessage ws' of
             (Inl e, ws'') \<Rightarrow> (Inl e, ws'')
           | (Inr finalReportText, ws'') \<Rightarrow>
               (Inr \<lparr>frames = frameResults,
                     finalReport = or_default finalReportText ''Could not generate final report.''\<rparr>,
                ws'')))"

text \<open>
  Reading a trace: the callbacks in it, the texts the session answered to frame messages,
  the rejected calls of a message, a call answered.
\<close>

fun callbacks :: "'x event list \<Rightarrow> VideoFrameAnalysis list" where
  "callbacks [] = []"
| "callbacks (FrameAnalyzed r # evs) = r # callbacks evs"
| "callbacks (Inference m out # evs) = callbacks evs"

fun frame_answers :: "'x event list \<Rightarrow> string option list" where
  "frame_answers [] = []"
| "frame_answers (Inference (ImageAndText d p) (Inr t) # evs) = t # frame_answers evs"
| "frame_answers (ev # evs) = frame_answers evs"

definition rejected :: "message \<Rightarrow> 'x list \<Rightarrow> 'x event list" where
  "rejected m es = map (\<lambda>e. Inference m (Inl e)) es"

definition answered :: "message \<Rightarrow> string option \<Rightarrow> 'x event" where
  "answered m t = Inference m (Inr t)"

text \<open>
  A session for running the analysis on concrete inputs: its state counts the calls, and
  the numbers in \<open>bad\<close> are the calls it rejects; every other call is answered with the
  text \<open>reply\<close>.
\<close>

definition scripted :: "nat list \<Rightarrow> string option \<Rightarrow> message \<Rightarrow> nat \<Rightarrow> (nat + string option) \<times> nat" where
  "scripted bad reply m n = (if n \<in> set bad then Inl n else Inr reply, n + 1)"

definition frame_at :: "real \<Rightarrow> ExtractedFrame" where
  "frame_at t = \<lparr>timestamp = t, base64 = ''jpeg''\<rparr>"

definition fresh :: "(nat, nat) world \<times> int list" where
  "fresh = (\<lparr>chat = 0, trace = []\<rparr>, [])"

section \<open>services/geminiService.ts: analyzeImage\<close>

text \<open>
  A value as \<^verbatim>\<open>JSON.parse\<close> returns it.  The cast \<^verbatim>\<open>as ImageAnalysisResult\<close> is erased
  when TypeScript is compiled, so what \<^verbatim>\<open>analyzeImage\<close> returns is such a value, whatever
  its shape.
\<close>

datatype json =
    JNull
  | JBool bool
  | JNumber real
  | JString string
  | JArray "json list"
  | JObject "(string \<times> json) list"

text \<open>
  One invocation of the operation that \<^verbatim>\<open>analyzeImage\<close> hands to the retry wrapper.
  \<open>generateContent\<close> is the call of the service: a rejection, or a response whose
  \<^verbatim>\<open>text\<close> is a string or \<^verbatim>\<open>undefined\<close>.  \<open>JSON_parse\<close> is the parser of the JavaScript
  runtime: \<open>None\<close> where it throws.
\<close>

definition analyzeImage_attempt ::
  "(string \<Rightarrow> json option) \<Rightarrow> (string \<Rightarrow> 's \<Rightarrow> ('x + string option) \<times> 's) \<Rightarrow> string
     \<Rightarrow> 's \<Rightarrow> ('x js_error + json) \<times> 's" where
  "analyzeImage_attempt JSON_parse generateContent base64Image s =
     (case generateContent base64Image s of
        (Inl e, s') \<Rightarrow> (Inl (Thrown e), s')
      | (Inr text, s') \<Rightarrow>
          (case text of
             None \<Rightarrow> (Inl (Error ''No response from Gemini''), s')
           | Some t \<Rightarrow>
               if t = [] then (Inl (Error ''No response from Gemini''), s')
               else (case JSON_parse t of
                       None \<Rightarrow> (Inl SyntaxError, s')
                     | Some v \<Rightarrow> (Inr v, s'))))"

definition analyzeImage ::
  "(string \<Rightarrow> json option) \<Rightarrow> (string \<Rightarrow> 's \<Rightarrow> ('x + string option) \<times> 's) \<Rightarrow> string
     \<Rightarrow> 's \<times> int list \<Rightarrow> ('x js_error + json) \<times> 's \<times> int list" where
  "analyzeImage JSON_parse generateContent base64Image =
     withExponentialBackoff (analyzeImage_attempt JSON_parse generateContent base64Image) 3 1000"

text \<open>
  The schema that the request names in \<^verbatim>\<open>responseSchema\<close> and that types.ts declares:
  an object with \<^verbatim>\<open>objects\<close>, an array of objects with a string \<^verbatim>\<open>name\<close>, a
  \<^verbatim>\<open>confidence\<close> among High, Medium, Low and an array of numbers \<^verbatim>\<open>box_2d\<close>, and with a
  string \<^verbatim>\<open>narrative\<close>.
\<close>

definition is_confidence :: "string \<Rightarrow> bool" where
  "is_confidence c \<longleftrightarrow> c \<in> set [''High'', ''Medium'', ''Low'']"

fun is_number :: "json \<Rightarrow> bool" where
  "is_number (JNumber x) = True"
| "is_number v = False"

fun conforms_DetectedObject :: "json \<Rightarrow> bool" where
  "conforms_DetectedObject (JObject props) =
     (case (map_of props ''name'', map_of props ''confidence'', map_of props ''box_2d'') of
        (Some (JString n), Some (JString c), Some (JArray box)) \<Rightarrow>
          is_confidence c \<and> list_all is_number box
      | other \<Rightarrow> False)"
| "conforms_DetectedObject v = False"

fun conforms_ImageAnalysisResult :: "json \<Rightarrow> bool" where
  "conforms_ImageAnalysisResult (JObject props) =
     (case (map_of props ''objects'', map_of props ''narrative'') of
        (Some (JArray objs), Some (JString n)) \<Rightarrow> list_all conforms_DetectedObject objs
      | other \<Rightarrow> False)"
| "conforms_ImageAnalysisResult v = False"

text \<open>
  A response for running \<^verbatim>\<open>analyzeImage\<close> on a concrete input: the text of a JSON document
  with one object whose confidence is VeryHigh, the value \<^verbatim>\<open>JSON.parse\<close> returns for it,
  a parser that knows this one text, and a service that answers every request with it.
\<close>

definition veryHigh_text :: string where
  "veryHigh_text =
     ''{\"objects\":[{\"name\":\"cat\",\"confidence\":\"VeryHigh\",\"box_2d\":[100,200,400,600]}],\"narrative\":\"A cat.\"}''"

definition veryHigh_value :: json where
  "veryHigh_value =
     JObject [(''objects'', JArray [JObject [(''name'', JString ''cat''),
                                             (''confidence'', JString ''VeryHigh''),
                                             (''box_2d'', JArray [JNumber 100, JNumber 200, JNumber 400, JNumber 600])]]),
              (''narrative'', JString ''A cat.'')]"

definition parse_veryHigh :: "string \<Rightarrow> json option" where
  "parse_veryHigh t = (if t = veryHigh_text then Some veryHigh_value else None)"

definition answer_veryHigh :: "string \<Rightarrow> nat \<Rightarrow> (unit + string option) \<times> nat" where
  "answer_veryHigh base64Image n = (Inr (Some veryHigh_text), n + 1)"

section \<open>components/WebcamAnalyzer.tsx (src/unnamed/part_000): startCamera\<close>

text \<open>
  What a \<^verbatim>\<open>catch\<close> of \<^verbatim>\<open>startCamera\<close> reads of a thrown value: its \<^verbatim>\<open>name\<close> and its
  \<^verbatim>\<open>message\<close>.  The two constraint sets that \<^verbatim>\<open>startCamera\<close> passes to \<^verbatim>\<open>getUserMedia\<close>:
  \<open>HD\<close> is \<^verbatim>\<open>{video: {width: {ideal: 1280}, height: {ideal: 720}}, audio: false}\<close> and
  \<open>Basic\<close> is \<^verbatim>\<open>{video: true, audio: false}\<close>.
\<close>

datatype exception = Exception (err_name: string) (err_message: string)

datatype constraints = HD | Basic

text \<open>
  The state of the component that \<^verbatim>\<open>startCamera\<close> and \<^verbatim>\<open>stopCamera\<close> touch: the ref
  \<^verbatim>\<open>streamRef\<close>, the React state \<^verbatim>\<open>isStreaming\<close>, \<^verbatim>\<open>error\<close>, \<^verbatim>\<open>permissionDenied\<close>, the
  \<^verbatim>\<open>srcObject\<close> of the video element, and the environment: the state of the media
  devices, the requests made to \<^verbatim>\<open>getUserMedia\<close> so far, and the streams whose tracks
  were stopped.
\<close>

record ('st, 'dev) webcam =
  streamRef :: "'st option"
  isStreaming :: bool
  error :: "string option"
  permissionDenied :: bool
  srcObject :: "'st option"
  devices :: 'dev
  requested :: "constraints list"
  stopped :: "'st list"

definition stopCamera :: "('st, 'dev) webcam \<Rightarrow> ('st, 'dev) webcam" where
  "stopCamera c =
     (case streamRef c of
        Some stream \<Rightarrow> c\<lparr>stopped := stopped c @ [stream], streamRef := None\<rparr>
      | None \<Rightarrow> c)\<lparr>isStreaming := False\<rparr>"

text \<open>
  A call of \<^verbatim>\<open>navigator.mediaDevices.getUserMedia\<close>: the outcome is a rejection or a
  stream (\<open>None\<close> for a value that \<^verbatim>\<open>!stream\<close> takes as missing).
\<close>

definition request ::
  "(constraints \<Rightarrow> 'dev \<Rightarrow> (exception + 'st option) \<times> 'dev) \<Rightarrow> constraints
     \<Rightarrow> ('st, 'dev) webcam \<Rightarrow> (exception + 'st option) \<times> ('st, 'dev) webcam" where
  "request getUserMedia k c =
     (case getUserMedia k (devices c) of
        (out, d) \<Rightarrow> (out, c\<lparr>devices := d, requested := requested c @ [k]\<rparr>))"

text \<open>
  The \<^verbatim>\<open>try\<close> block of \<^verbatim>\<open>startCamera\<close> up to the assignment of \<^verbatim>\<open>streamRef\<close>: the value
  it throws (\<open>Inl\<close>) or the stream it has obtained.  \<open>supported\<close> says that
  \<^verbatim>\<open>navigator.mediaDevices\<close> and its \<^verbatim>\<open>getUserMedia\<close> exist.
\<close>

definition acquireStream ::
  "bool \<Rightarrow> (constraints \<Rightarrow> 'dev \<Rightarrow> (exception + 'st option) \<times> 'dev)
     \<Rightarrow> ('st, 'dev) webcam \<Rightarrow> (exception + 'st) \<times> ('st, 'dev) webcam" where
  "acquireStream supported getUserMedia c =
     (if \<not> supported then
        (Inl (Exception ''Error'' ''Camera API is not supported in this browser or context.''), c)
      else
        (case (case request getUserMedia HD c of
                 (Inr stream, c1) \<Rightarrow> (Inr stream, c1)
               | (Inl hdError, c1) \<Rightarrow>
                   (case request getUserMedia Basic c1 of
                      (Inr stream, c2) \<Rightarrow> (Inr stream, c2)
                    | (Inl basicError, c2) \<Rightarrow> (Inl basicError, c2))) of
           (Inl e, c') \<Rightarrow> (Inl e, c')
         | (Inr None, c') \<Rightarrow> (Inl (Exception ''Error'' ''Could not initialize video stream.''), c')
         | (Inr (Some stream), c') \<Rightarrow> (Inr stream, c')))"

text \<open>The outer \<^verbatim>\<open>catch\<close>: what is shown for the value caught.\<close>

definition showError :: "exception \<Rightarrow> ('st, 'dev) webcam \<Rightarrow> ('st, 'dev) webcam" where
  "showError err c =
     (let c = c\<lparr>isStreaming := False\<rparr> in
      if err_name err = ''NotAllowedError'' \<or> err_name err = ''PermissionDeniedError'' then
        c\<lparr>permissionDenied := True,
          error := Some ''Camera access was denied. Please allow camera access in your browser settings to continue.''\<rparr>
      else if err_name err = ''NotFoundError'' \<or> err_name err = ''DevicesNotFoundError'' then
        c\<lparr>error := Some ''No camera found. Please ensure a camera is connected and recognized by your device.''\<rparr>
      else if err_name err = ''NotReadableError'' \<or> err_name err = ''TrackStartError'' then
        c\<lparr>error := Some ''Camera is currently in use by another application or OS permission is blocked. Please close other apps using the camera.''\<rparr>
      else
        c\<lparr>error := Some (if err_message err = [] then ''Could not access camera.'' else err_message err)\<rparr>)"

text \<open>
  \<^verbatim>\<open>startCamera\<close>.  \<open>mounted\<close> says that \<^verbatim>\<open>videoRef.current\<close> is set; a rejection of
  \<^verbatim>\<open>play()\<close> is caught and logged and changes nothing here.
\<close>

definition startCamera ::
  "bool \<Rightarrow> (constraints \<Rightarrow> 'dev \<Rightarrow> (exception + 'st option) \<times> 'dev) \<Rightarrow> bool
     \<Rightarrow> ('st, 'dev) webcam \<Rightarrow> ('st, 'dev) webcam" where
  "startCamera supported getUserMedia mounted c =
     (case acquireStream supported getUserMedia
             ((stopCamera c)\<lparr>error := None, permissionDenied := False\<rparr>) of
        (Inr stream, c') \<Rightarrow>
          c'\<lparr>streamRef := Some stream,
             srcObject := (if mounted then Some stream else srcObject c'),
             isStreaming := True\<rparr>
      | (Inl err, c') \<Rightarrow> showError err c')"

text \<open>
  Devices for running \<^verbatim>\<open>startCamera\<close> on concrete inputs: the state counts the requests,
  and every request is rejected, the \<open>HD\<close> one as not readable and the \<open>Basic\<close> one as not
  allowed.
\<close>

definition no_camera :: "constraints \<Rightarrow> nat \<Rightarrow> (exception + unit option) \<times> nat" where
  "no_camera k n =
     (Inl (case k of HD \<Rightarrow> Exception ''NotReadableError'' ''busy''
                   | Basic \<Rightarrow> Exception ''NotAllowedError'' ''denied''), n + 1)"

definition closed_webcam :: "(unit, nat) webcam" where
  "closed_webcam = \<lparr>streamRef = None, isStreaming = False, error = None, permissionDenied = False,
     srcObject = None, devices = 0, requested = [], stopped = []\<rparr>"

section \<open>components/ImageAnalyzer.tsx and WebcamAnalyzer.tsx: the overlay\<close>

text \<open>
  \<^verbatim>\<open>DetectedObject\<close> and \<^verbatim>\<open>ImageAnalysisResult\<close> of types.ts, and the entries of
  \<^verbatim>\<open>aggregatedObjects\<close>, which share \<^verbatim>\<open>name\<close> and \<^verbatim>\<open>confidence\<close> with the objects.  The
  numbers of \<^verbatim>\<open>box_2d\<close> are \<^verbatim>\<open>[ymin, xmin, ymax, xmax]\<close>.  A \<^verbatim>\<open>colorIndex\<close> is a number
  or \<^verbatim>\<open>undefined\<close> (\<open>None\<close>).
\<close>

record labelled =
  name :: string
  confidence :: string

record DetectedObject = labelled +
  box_2d :: "real list"

record ImageAnalysisResult =
  objects :: "DetectedObject list"
  narrative :: string

record aggregate = labelled +
  count :: nat
  colorIndex :: "nat option"

text \<open>The palette of ImageAnalyzer.tsx and the one of WebcamAnalyzer.tsx.\<close>

definition BOX_COLORS :: "string list" where
  "BOX_COLORS = [''#ef4444'', ''#f59e0b'', ''#10b981'', ''#3b82f6'', ''#8b5cf6'', ''#ec4899'',
                 ''#06b6d4'', ''#f97316'']"

definition BOX_COLORS_webcam :: "string list" where
  "BOX_COLORS_webcam = [''#ef4444'', ''#f59e0b'', ''#10b981'', ''#3b82f6'', ''#8b5cf6'', ''#ec4899'',
                        ''#06b6d4'']"

text \<open>Reading an array at an index: \<^verbatim>\<open>undefined\<close> (\<open>None\<close>) past its end.\<close>

definition at_index :: "'a list \<Rightarrow> nat \<Rightarrow> 'a option" where
  "at_index xs i = (if i < length xs then Some (xs ! i) else None)"

subsection \<open>aggregatedObjects\<close>

text \<open>
  The state of the \<^verbatim>\<open>forEach\<close> in \<^verbatim>\<open>aggregatedObjects\<close>: the two dictionaries and the
  counter.  \<open>nameColorMap\<close> holds the own properties of the object of that name, and
  \<open>counts\<close> the own properties of \<^verbatim>\<open>counts\<close> in the order they were added, each with its
  key as \<open>name\<close>.

  Both dictionaries are object literals \<^verbatim>\<open>{}\<close>, so a read \<^verbatim>\<open>d[name]\<close> of a name that is not
  an own property goes to \<^verbatim>\<open>Object.prototype\<close>: for \<^verbatim>\<open>constructor\<close>, \<^verbatim>\<open>toString\<close> and the
  other names found there it gives a value that is neither \<^verbatim>\<open>undefined\<close> nor falsy.  The
  predicate \<open>inherited\<close> says which names these are.  For such a name neither dictionary
  gets an entry, and \<^verbatim>\<open>counts[name].count++\<close> writes to the inherited value, not to
  \<^verbatim>\<open>counts\<close>.
\<close>

record tally =
  nameColorMap :: "string \<rightharpoonup> nat"
  colorCounter :: nat
  counts :: "aggregate list"

definition tally_step :: "(string \<Rightarrow> bool) \<Rightarrow> tally \<Rightarrow> DetectedObject \<Rightarrow> tally" where
  "tally_step inherited t obj =
     (let n = name obj;
          t1 = (if nameColorMap t n = None \<and> \<not> inherited n
                then t\<lparr>nameColorMap := (nameColorMap t)(n \<mapsto> colorCounter t mod length BOX_COLORS),
                       colorCounter := colorCounter t + 1\<rparr>
                else t);
          t2 = (if find (\<lambda>a. name a = n) (counts t1) = None \<and> \<not> inherited n
                then t1\<lparr>counts := counts t1 @
                        [\<lparr>name = n, confidence = confidence obj, count = 0,
                          colorIndex = nameColorMap t1 n\<rparr>]\<rparr>
                else t1)
      in t2\<lparr>counts := map (\<lambda>a. if name a = n then a\<lparr>count := count a + 1\<rparr> else a) (counts t2)\<rparr>)"

text \<open>
  \<^verbatim>\<open>aggregatedObjects\<close>: empty without a result, else the entries of \<^verbatim>\<open>counts\<close>.
  (\<^verbatim>\<open>Object.entries\<close> lists keys that are array indices before the others; the overlay looks
  entries up by name, so their order plays no part in it.)
\<close>

definition aggregatedObjects :: "(string \<Rightarrow> bool) \<Rightarrow> ImageAnalysisResult option \<Rightarrow> aggregate list" where
  "aggregatedObjects inherited result =
     (case result of
        None \<Rightarrow> []
      | Some r \<Rightarrow>
          counts (foldl (tally_step inherited)
                    \<lparr>nameColorMap = Map.empty, colorCounter = 0, counts = []\<rparr> (objects r)))"

subsection \<open>The bounding boxes\<close>

text \<open>
  One absolutely positioned \<^verbatim>\<open>div\<close> per object.  The numbers of its \<^verbatim>\<open>style\<close> are
  percentages (\<^verbatim>\<open>top: `${ymin / 10}%`\<close>); \<open>None\<close> is the \<^verbatim>\<open>NaN\<close> that arithmetic on a missing
  coordinate gives.  The field \<open>top\<close> of the style is called \<open>top_pct\<close> here, and the others
  likewise.
\<close>

record box_overlay =
  key :: nat
  top_pct :: "real option"
  left_pct :: "real option"
  height_pct :: "real option"
  width_pct :: "real option"
  borderColor :: "string option"
  label :: string

definition tenth :: "real option \<Rightarrow> real option" where
  "tenth x = map_option (\<lambda>v. v / 10) x"

definition minus_opt :: "real option \<Rightarrow> real option \<Rightarrow> real option" where
  "minus_opt x y = (case (x, y) of (Some a, Some b) \<Rightarrow> Some (a - b) | other \<Rightarrow> None)"

definition box_div :: "nat \<Rightarrow> DetectedObject \<Rightarrow> string option \<Rightarrow> box_overlay" where
  "box_div i obj color =
     (let ymin = at_index (box_2d obj) 0; xmin = at_index (box_2d obj) 1;
          ymax = at_index (box_2d obj) 2; xmax = at_index (box_2d obj) 3
      in \<lparr>key = i,
          top_pct = tenth ymin,
          left_pct = tenth xmin,
          height_pct = tenth (minus_opt ymax ymin),
          width_pct = tenth (minus_opt xmax xmin),
          borderColor = color,
          label = name obj\<rparr>)"

text \<open>
  ImageAnalyzer.tsx:
  \<^verbatim>\<open>BOX_COLORS[aggregatedObjects.find(a => a.name === obj.name)?.colorIndex || 0]\<close>.
\<close>

definition colorIndexOf :: "(string \<Rightarrow> bool) \<Rightarrow> ImageAnalysisResult \<Rightarrow> DetectedObject \<Rightarrow> nat" where
  "colorIndexOf inherited result obj =
     (case find (\<lambda>a. name a = name obj) (aggregatedObjects inherited (Some result)) of
        None \<Rightarrow> 0
      | Some a \<Rightarrow> (case colorIndex a of None \<Rightarrow> 0 | Some c \<Rightarrow> c))"

definition imageBoxes :: "(string \<Rightarrow> bool) \<Rightarrow> ImageAnalysisResult \<Rightarrow> box_overlay list" where
  "imageBoxes inherited result =
     map (\<lambda>(i, obj). box_div i obj (at_index BOX_COLORS (colorIndexOf inherited result obj)))
       (enumerate 0 (objects result))"

text \<open>WebcamAnalyzer.tsx: \<^verbatim>\<open>BOX_COLORS[i % BOX_COLORS.length]\<close>.\<close>

definition webcamBoxes :: "ImageAnalysisResult \<Rightarrow> box_overlay list" where
  "webcamBoxes result =
     map (\<lambda>(i, obj). box_div i obj (at_index BOX_COLORS_webcam (i mod length BOX_COLORS_webcam)))
       (enumerate 0 (objects result))"

text \<open>
  For stating the order of assignment: the distinct elements of a list in the order of
  their first occurrences.  The names that \<^verbatim>\<open>Object.prototype\<close> has in a browser, for
  running the overlay on concrete inputs, and an object of a given name.
\<close>

definition first_occurrences :: "'a list \<Rightarrow> 'a list" where
  "first_occurrences xs = rev (remdups (rev xs))"

text \<open>
  What the \<^verbatim>\<open>forEach\<close> maintains, for the distinct names \<open>ds\<close> seen so far: the counter is
  their number, and the \<open>k\<close>-th of them has the colour \<open>k mod 8\<close> in both dictionaries.
\<close>

definition in_order :: "string list \<Rightarrow> tally \<Rightarrow> bool" where
  "in_order ds t \<longleftrightarrow>
     colorCounter t = length ds
   \<and> nameColorMap t = map_of (zip ds (map (\<lambda>k. k mod 8) [0..<length ds]))
   \<and> map (\<lambda>a. (name a, colorIndex a)) (counts t) = zip ds (map (\<lambda>k. Some (k mod 8)) [0..<length ds])"

text \<open>
  For stating what a box covers: the edges of the \<^verbatim>\<open>div\<close> as fractions of the image (top,
  left, bottom, right), from the percentages of its style, and the coordinates on the scale
  of 0 to 1000 that such edges stand for.
\<close>

definition normalizedRect :: "box_overlay \<Rightarrow> (real \<times> real \<times> real \<times> real) option" where
  "normalizedRect b =
     (case (top_pct b, left_pct b, height_pct b, width_pct b) of
        (Some t, Some l, Some h, Some w) \<Rightarrow> Some (t / 100, l / 100, (t + h) / 100, (l + w) / 100)
      | other \<Rightarrow> None)"

fun inverse_scale :: "real \<times> real \<times> real \<times> real \<Rightarrow> real list" where
  "inverse_scale (t, l, b, r) = [1000 * t, 1000 * l, 1000 * b, 1000 * r]"

definition prototype_names :: "string list" where
  "prototype_names = [''constructor'', ''hasOwnProperty'', ''isPrototypeOf'', ''propertyIsEnumerable'',
     ''toLocaleString'', ''toString'', ''valueOf'', ''__proto__'', ''__defineGetter__'',
     ''__defineSetter__'', ''__lookupGetter__'', ''__lookupSetter__'']"

definition in_prototype :: "string \<Rightarrow> bool" where
  "in_prototype n \<longleftrightarrow> n \<in> set prototype_names"

definition detected :: "string \<Rightarrow> real list \<Rightarrow> DetectedObject" where
  "detected n box = \<lparr>name = n, confidence = ''High'', box_2d = box\<rparr>"

definition shown :: "DetectedObject list \<Rightarrow> ImageAnalysisResult" where
  "shown objs = \<lparr>objects = objs, narrative = ''''\<rparr>"

definition pets :: "DetectedObject list" where
  "pets = [detected ''cat'' [100, 200, 400, 600], detected ''dog'' [0, 0, 1000, 1000],
           detected ''cat'' [500, 500, 600, 700]]"

definition nine_names :: "DetectedObject list" where
  "nine_names = map (\<lambda>n. detected n []) [''a'', ''b'', ''c'', ''d'', ''e'', ''f'', ''g'', ''h'', ''i'']"

section \<open>Properties\<close>

subsection \<open>formatTime\<close>


lemma digit_cases: "d < 10 \<Longrightarrow> d \<in> {0, 1, 2, 3, 4, 5, 6, 7, 8, 9::nat}"
  by auto

lemma digit_value_digit_char: "d < 10 \<Longrightarrow> digit_value (digit_char d) = d"
  using digit_cases [of d] by (auto simp: digit_value_def digit_char_def)

lemma is_digit_digit_char: "d < 10 \<Longrightarrow> is_digit (digit_char d)"
  using digit_cases [of d] by (auto simp: is_digit_def digit_char_def)

lemma decimal_value_snoc: "decimal_value (xs @ [c]) = 10 * decimal_value xs + digit_value c"
  by (simp add: decimal_value_def)

lemma decimal_value_digits: "decimal_value (digits n) = n"
proof (induction n rule: digits.induct)
  case (1 n)
  show ?case
  proof (cases "n < 10")
    case True
    then show ?thesis
      by (simp add: digits.simps [of n] decimal_value_def digit_value_digit_char)
  next
    case False
    with 1 show ?thesis
      by (simp add: digits.simps [of n] decimal_value_snoc digit_value_digit_char)
  qed
qed

lemma is_digit_digits: "c \<in> set (digits n) \<Longrightarrow> is_digit c"
proof (induction n rule: digits.induct)
  case (1 n)
  then show ?case
    by (cases "n < 10") (auto simp: digits.simps [of n] is_digit_digit_char)
qed

lemma length_digits_pos: "0 < length (digits n)"
  by (subst digits.simps) simp

lemma length_digits_small: "n < 10 \<Longrightarrow> length (digits n) = 1"
  by (subst digits.simps) simp

lemma length_digits_two: "10 \<le> n \<Longrightarrow> n < 100 \<Longrightarrow> length (digits n) = 2"
  by (subst digits.simps) (simp add: length_digits_small)

lemma hd_digits: "0 < n \<Longrightarrow> hd (digits n) \<noteq> CHR ''0''"
proof (induction n rule: digits.induct)
  case (1 n)
  show ?case
  proof (cases "n < 10")
    case True
    with 1(2) digit_cases [of n] show ?thesis
      by (auto simp: digits.simps [of n] digit_char_def)
  next
    case False
    then have "hd (digits (n div 10)) \<noteq> CHR ''0''"
      using 1(1) by simp
    moreover have "digits (n div 10) \<noteq> []"
      using length_digits_pos [of "n div 10"] by auto
    ultimately show ?thesis
      using False by (simp add: digits.simps [of n])
  qed
qed

lemma decimal_value_zeros: "decimal_value (replicate k CHR ''0'' @ s) = decimal_value s"
proof -
  have "foldl (\<lambda>acc c. 10 * acc + digit_value c) 0 (replicate k CHR ''0'') = 0"
    by (induction k) (simp_all add: digit_value_def)
  then show ?thesis by (simp add: decimal_value_def)
qed

lemma decimal_value_padStart: "decimal_value (padStart 2 CHR ''0'' (digits n)) = n"
  by (simp add: padStart_def decimal_value_zeros decimal_value_digits)

lemma is_digit_padStart: "c \<in> set (padStart 2 CHR ''0'' (digits n)) \<Longrightarrow> is_digit c"
  by (auto simp: padStart_def is_digit_digits) (simp add: is_digit_def)

lemma length_padStart: "length (padStart n c s) = max n (length s)"
  by (simp add: padStart_def)

lemma floor_mins: "\<lfloor>(s::real) / 60\<rfloor> = \<lfloor>s\<rfloor> div 60"
  using floor_divide_real_eq_div [of 60 s] by simp

lemma floor_secs: 
  assumes "0 \<le> s" shows "\<lfloor>js_rem s 60\<rfloor> = \<lfloor>s\<rfloor> mod 60"
proof -
  have "js_rem s 60 = s - of_int (60 * \<lfloor>s / 60\<rfloor>)"
    using assms by (simp add: js_rem_def)
  then have "\<lfloor>js_rem s 60\<rfloor> = \<lfloor>s\<rfloor> - 60 * \<lfloor>s / 60\<rfloor>"
    by (simp only: floor_diff_of_int)
  then show ?thesis
    using assms by (simp add: floor_mins minus_mult_div_eq_mod)
qed

lemma formatTime_nonneg:
  assumes "0 \<le> s"
  shows "formatTime s = padStart 2 CHR ''0'' (digits (nat (\<lfloor>s\<rfloor> div 60))) @ '':'' @
           padStart 2 CHR ''0'' (digits (nat (\<lfloor>s\<rfloor> mod 60)))"
proof -
  have "0 \<le> \<lfloor>s\<rfloor>" using assms by simp
  then have "0 \<le> \<lfloor>s\<rfloor> div 60" "0 \<le> \<lfloor>s\<rfloor> mod 60"
    by (simp_all add: pos_imp_zdiv_nonneg_iff)
  then have "\<not> \<lfloor>s\<rfloor> div 60 < 0" "\<not> \<lfloor>s\<rfloor> mod 60 < 0"
    by simp_all
  then show ?thesis
    using assms by (simp add: formatTime_def floor_mins floor_secs toString_def Let_def)
qed

text \<open>
  C6: for every non-negative number of seconds \<open>s\<close>, \<open>formatTime s\<close> is \<open>MM:SS\<close>: two
  runs of decimal digits around a colon, the seconds of exactly two digits, the minutes
  of at least two and of more only without a leading zero; the seconds read
  \<open>\<lfloor>s\<rfloor> mod 60\<close> and the minutes \<open>\<lfloor>s\<rfloor> div 60\<close>, so the fraction of a second is cut
  off and the minutes are not wrapped at 60.  In particular 185, 59 and 0 seconds give
  03:05, 00:59 and 00:00.
\<close>

theorem formatTime_MM_SS:
  assumes "0 \<le> s"
  shows "(\<exists>mm ss. formatTime s = mm @ '':'' @ ss
            \<and> length ss = 2 \<and> 2 \<le> length mm
            \<and> (2 < length mm \<longrightarrow> hd mm \<noteq> CHR ''0'')
            \<and> (\<forall>c \<in> set (mm @ ss). is_digit c)
            \<and> int (decimal_value mm) = \<lfloor>s\<rfloor> div 60
            \<and> int (decimal_value ss) = \<lfloor>s\<rfloor> mod 60)
         \<and> formatTime 185 = ''03:05'' \<and> formatTime 59 = ''00:59'' \<and> formatTime 0 = ''00:00''"
proof -
  let ?m = "nat (\<lfloor>s\<rfloor> div 60)" and ?r = "nat (\<lfloor>s\<rfloor> mod 60)"
  let ?mm = "padStart 2 CHR ''0'' (digits ?m)" and ?ss = "padStart 2 CHR ''0'' (digits ?r)"
  have fl: "0 \<le> \<lfloor>s\<rfloor>" using assms by simp
  have r: "?r < 100" by simp
  have 1: "formatTime s = ?mm @ '':'' @ ?ss"
    using assms by (rule formatTime_nonneg)
  have 2: "length ?ss = 2"
  proof (cases "?r < 10")
    case True
    then show ?thesis by (simp add: length_padStart length_digits_small)
  next
    case False
    then have "10 \<le> ?r" by simp
    then show ?thesis using r by (simp add: length_padStart length_digits_two)
  qed
  have 3: "2 \<le> length ?mm"
    by (simp add: length_padStart)
  have 4: "hd ?mm \<noteq> CHR ''0''" if "2 < length ?mm"
  proof -
    from that have len: "2 < length (digits ?m)"
      by (simp add: length_padStart)
    then have pad: "?mm = digits ?m"
      by (simp add: padStart_def)
    have "0 < ?m"
      using len length_digits_small [of ?m] by (cases "?m = 0") auto
    then show ?thesis
      unfolding pad by (rule hd_digits)
  qed
  have 5: "\<forall>c \<in> set (?mm @ ?ss). is_digit c"
    by (auto dest: is_digit_padStart)
  have 6: "int (decimal_value ?mm) = \<lfloor>s\<rfloor> div 60"
    using fl by (simp add: decimal_value_padStart pos_imp_zdiv_nonneg_iff)
  have 7: "int (decimal_value ?ss) = \<lfloor>s\<rfloor> mod 60"
    by (simp add: decimal_value_padStart)
  have ex: "formatTime 185 = ''03:05''" "formatTime 59 = ''00:59''" "formatTime 0 = ''00:00''"
    by (simp_all add: formatTime_def js_rem_def toString_def padStart_def digits.simps digit_char_def)
  from 1 2 3 4 5 6 7 ex show ?thesis by blast
qed

theorem formatTime_MM_SS_witness:
  "(0::real) \<le> 6000.7 \<and>
   (\<exists>mm ss. formatTime 6000.7 = mm @ '':'' @ ss \<and> length ss = 2 \<and> 2 \<le> length mm
      \<and> int (decimal_value mm) = 100 \<and> int (decimal_value ss) = 0)"
proof -
  have h: "(0::real) \<le> 6000.7" by simp
  have fl: "\<lfloor>6000.7::real\<rfloor> = 6000" by linarith
  from formatTime_MM_SS [OF h] obtain mm ss where
    "formatTime 6000.7 = mm @ '':'' @ ss" "length ss = 2" "2 \<le> length mm"
    "int (decimal_value mm) = \<lfloor>6000.7::real\<rfloor> div 60"
    "int (decimal_value ss) = \<lfloor>6000.7::real\<rfloor> mod 60"
    by blast
  with h show ?thesis unfolding fl by auto
qed

subsection \<open>extractFramesFromVideo\<close>


lemma sample_count_stop:
  fixes D :: real
  assumes "n = nat (min 10 (\<lfloor>D / 3\<rfloor> + 1))"
  shows "3 * real n > D \<or> n \<ge> maxFrames"
proof (cases "n \<ge> 10")
  case True
  then show ?thesis by (simp add: maxFrames_def)
next
  case False
  with assms have "\<lfloor>D / 3\<rfloor> + 1 \<le> int n" by linarith
  then have "\<lfloor>D / 3\<rfloor> < int n" by simp
  then have "D / 3 < real n" by (simp add: floor_less_iff)
  then show ?thesis by simp
qed

lemma sample_count_go:
  fixes D :: real
  assumes "n = nat (min 10 (\<lfloor>D / 3\<rfloor> + 1))" "c < n"
  shows "\<not> (3 * real c > D \<or> c \<ge> maxFrames)"
proof -
  from assms have "c < 10" "int c < \<lfloor>D / 3\<rfloor> + 1" by linarith+
  then have "int c \<le> \<lfloor>D / 3\<rfloor>" by simp
  then have "real c \<le> D / 3" by (simp add: le_floor_iff)
  with \<open>c < 10\<close> show ?thesis by (simp add: maxFrames_def)
qed

lemma progress_value: "c < 10 \<Longrightarrow> min 100 (round (real (c + 1) / real maxFrames * 100)) = 10 * (int c + 1)"
proof -
  assume "c < 10"
  have "real (c + 1) / real maxFrames * 100 = of_int (10 * (int c + 1))"
    by (simp add: maxFrames_def)
  then have "round (real (c + 1) / real maxFrames * 100) = 10 * (int c + 1)"
    by (simp only: round_of_int)
  with \<open>c < 10\<close> show ?thesis by simp
qed

lemma captureFrame_loop:
  assumes n: "n = nat (min 10 (\<lfloor>duration video / 3\<rfloor> + 1))"
    and ctx: "context2d video"
    and ok: "\<And>k. k < n \<Longrightarrow> \<not> isl (seek video (3 * real k))"
  shows "c \<le> n \<Longrightarrow> captureFrame video (3 * real c) c fs pr =
           (Inr (fs @ map (sampled video) [c..<n]), pr @ map (\<lambda>k. 10 * (int k + 1)) [c..<n])"
proof (induction "n - c" arbitrary: c fs pr)
  case 0
  then have "c = n" by simp
  with sample_count_stop [OF n] show ?case
    by (subst captureFrame.simps) auto
next
  case (Suc m)
  then have lt: "c < n" by simp
  then have "c < 10" using n by linarith
  from ok [OF lt] obtain p where p: "seek video (3 * real c) = Inr p"
    by (cases "seek video (3 * real c)") auto
  have step: "captureFrame video (3 * real c) c fs pr =
      captureFrame video (3 * real (Suc c)) (Suc c) (fs @ [sampled video c]) (pr @ [10 * (int c + 1)])"
    using sample_count_go [OF n lt] p ctx progress_value [OF \<open>c < 10\<close>]
    by (subst captureFrame.simps) (simp add: interval_def sampled_def algebra_simps)
  have "m = n - Suc c" "Suc c \<le> n" using Suc.hyps(2) lt by simp_all
  from Suc.hyps(1) [OF this] show ?case
    unfolding step using lt by (simp add: upt_conv_Cons)
qed

lemma extract_frames_result:
  assumes "loads video" "context2d video"
    and "\<And>k. k < 10 \<Longrightarrow> 3 * real k \<le> duration video \<Longrightarrow> \<not> isl (seek video (3 * real k))"
    and n: "n = nat (min 10 (\<lfloor>duration video / 3\<rfloor> + 1))"
  shows "extractFramesFromVideo video =
           (Inr (map (sampled video) [0..<n]), map (\<lambda>k. 10 * (int k + 1)) [0..<n])"
proof -
  have ok: "\<not> isl (seek video (3 * real k))" if "k < n" for k
  proof -
    from sample_count_go [OF n that] have "k < 10" "3 * real k \<le> duration video"
      by (simp_all add: maxFrames_def)
    then show ?thesis by (rule assms(3))
  qed
  from captureFrame_loop [OF n assms(2) ok, of 0 "[]" "[]"] assms(1)
  show ?thesis by (simp add: extractFramesFromVideo_def)
qed

text \<open>
  The ways the promise rejects: the file does not load; a seek ends in an error event;
  the canvas has no context.  (Shown for the first frame.)
\<close>

lemma extractFramesFromVideo_rejects:
  "\<not> loads video \<Longrightarrow> fst (extractFramesFromVideo video) = Inl (Error ''Failed to load video file'')"
  "loads video \<Longrightarrow> 0 \<le> duration video \<Longrightarrow> seek video 0 = Inl e \<Longrightarrow>
     fst (extractFramesFromVideo video) = Inl (Thrown e)"
  "loads video \<Longrightarrow> 0 \<le> duration video \<Longrightarrow> seek video 0 = Inr p \<Longrightarrow> \<not> context2d video \<Longrightarrow>
     fst (extractFramesFromVideo video) = Inl (Error ''Could not get canvas context'')"
  by (simp_all add: extractFramesFromVideo_def captureFrame.simps [of _ 0 0] maxFrames_def)

text \<open>
  C1: when the metadata loads with duration \<open>D\<close>, the canvas has a context and the seeks
  to the sampled times succeed, \<open>extractFramesFromVideo\<close> resolves with exactly
  \<open>min 10 (\<lfloor>D / 3\<rfloor> + 1)\<close> frames (none when that is negative, which needs \<open>D < 0\<close>), and
  the frame in position \<open>k\<close>, counted from 0, has the timestamp \<open>3 * k\<close>: 0, 3, 6, ...
\<close>

theorem extractFramesFromVideo_count_and_timestamps:
  assumes "loads video" and "context2d video"
    and "\<forall>k < 10. 3 * real k \<le> duration video \<longrightarrow> \<not> isl (seek video (3 * real k))"
  shows "\<exists>frames progress. extractFramesFromVideo video = (Inr frames, progress)
           \<and> length frames = nat (min 10 (\<lfloor>duration video / 3\<rfloor> + 1))
           \<and> (0 \<le> duration video \<longrightarrow> int (length frames) = min 10 (\<lfloor>duration video / 3\<rfloor> + 1))
           \<and> map timestamp frames = map (\<lambda>k. 3 * real k) [0..<length frames]"
proof -
  define n where "n = nat (min 10 (\<lfloor>duration video / 3\<rfloor> + 1))"
  have res: "extractFramesFromVideo video =
      (Inr (map (sampled video) [0..<n]), map (\<lambda>k. 10 * (int k + 1)) [0..<n])"
    using assms by (intro extract_frames_result n_def) auto
  have ts: "map timestamp (map (sampled video) [0..<n]) = map (\<lambda>k. 3 * real k) [0..<n]"
    by (simp add: sampled_def)
  have "0 \<le> \<lfloor>duration video / 3\<rfloor>" if "0 \<le> duration video"
    using that by simp
  then have "int n = min 10 (\<lfloor>duration video / 3\<rfloor> + 1)" if "0 \<le> duration video"
    using that unfolding n_def by simp
  with res ts show ?thesis
    unfolding n_def [symmetric] by (intro exI conjI) (assumption | simp)+
qed

theorem extractFramesFromVideo_count_and_timestamps_witness:
  "loads (playable 7) \<and> context2d (playable 7)
     \<and> (\<exists>frames progress. extractFramesFromVideo (playable 7) = (Inr frames, progress)
           \<and> length frames = 3 \<and> map timestamp frames = [0, 3, 6])"
proof -
  have h: "loads (playable 7)" "context2d (playable 7)"
    "\<forall>k < 10. 3 * real k \<le> duration (playable 7) \<longrightarrow> \<not> isl (seek (playable 7) (3 * real k))"
    by (simp_all add: playable_def)
  have fl: "nat (min 10 (\<lfloor>duration (playable 7) / 3\<rfloor> + 1)) = 3"
    by (simp add: playable_def)
  from extractFramesFromVideo_count_and_timestamps [OF h] obtain frames progress where
    "extractFramesFromVideo (playable 7) = (Inr frames, progress)" "length frames = 3"
    "map timestamp frames = map (\<lambda>k. 3 * real k) [0..<length frames]"
    unfolding fl by blast
  moreover have "map (\<lambda>k. 3 * real k) [0..<3] = [0, 3, 6]"
    by (simp add: upt_rec [of _ 3] upt_rec [of _ "Suc (Suc (Suc 0))"] numeral_3_eq_3)
  ultimately show ?thesis
    using h by (intro conjI exI) (assumption | simp)+
qed

text \<open>
  C9: when the metadata loads with a duration \<open>D \<ge> 0\<close> (and the canvas has a context and
  the seeks succeed), the result has a first frame and its timestamp is 0; for \<open>D = 0\<close>
  the result is exactly one frame, at timestamp 0.
\<close>

theorem extractFramesFromVideo_first_frame:
  assumes "loads video" and "context2d video"
    and "\<forall>k < 10. 3 * real k \<le> duration video \<longrightarrow> \<not> isl (seek video (3 * real k))"
    and "0 \<le> duration video"
  shows "\<exists>frames progress. extractFramesFromVideo video = (Inr frames, progress)
           \<and> frames \<noteq> [] \<and> timestamp (hd frames) = 0
           \<and> (duration video = 0 \<longrightarrow> map timestamp frames = [0])"
proof -
  define n where "n = nat (min 10 (\<lfloor>duration video / 3\<rfloor> + 1))"
  have res: "extractFramesFromVideo video =
      (Inr (map (sampled video) [0..<n]), map (\<lambda>k. 10 * (int k + 1)) [0..<n])"
    using assms by (intro extract_frames_result n_def) auto
  have "0 \<le> \<lfloor>duration video / 3\<rfloor>"
    using assms(4) by simp
  then have pos: "0 < n"
    unfolding n_def by simp
  then have split: "[0..<n] = 0 # [Suc 0..<n]"
    by (simp add: upt_rec [of 0])
  have one: "n = 1" if "duration video = 0"
    using that unfolding n_def by simp
  have "map (sampled video) [0..<n] \<noteq> []" "timestamp (hd (map (sampled video) [0..<n])) = 0"
    "duration video = 0 \<longrightarrow> map timestamp (map (sampled video) [0..<n]) = [0]"
    using one by (auto simp: split sampled_def)
  then show ?thesis unfolding res by simp
qed

theorem extractFramesFromVideo_first_frame_witness:
  "loads (playable 0) \<and> context2d (playable 0) \<and> 0 \<le> duration (playable 0)
     \<and> (\<exists>frames progress. extractFramesFromVideo (playable 0) = (Inr frames, progress)
           \<and> map timestamp frames = [0])"
proof -
  have h: "loads (playable 0)" "context2d (playable 0)"
    "\<forall>k < 10. 3 * real k \<le> duration (playable 0) \<longrightarrow> \<not> isl (seek (playable 0) (3 * real k))"
    "0 \<le> duration (playable 0)"
    by (simp_all add: playable_def)
  have d: "duration (playable 0) = 0"
    by (simp add: playable_def)
  from extractFramesFromVideo_first_frame [OF h] obtain frames progress where
    "extractFramesFromVideo (playable 0) = (Inr frames, progress)"
    "duration (playable 0) = 0 \<longrightarrow> map timestamp frames = [0]"
    by auto
  with d have "\<exists>frames progress. extractFramesFromVideo (playable 0) = (Inr frames, progress)
      \<and> map timestamp frames = [0]"
    by simp
  with h show ?thesis by simp
qed

subsection \<open>withExponentialBackoff\<close>

lemma wEB_success:
  "fn s = (Inr v, s') \<Longrightarrow> withExponentialBackoff fn r d (s, sl) = (Inr v, s', sl)"
  by (subst withExponentialBackoff.simps) simp

lemma wEB_exhausted:
  "fn s = (Inl e, s') \<Longrightarrow> r \<le> 0 \<Longrightarrow> withExponentialBackoff fn r d (s, sl) = (Inl e, s', sl)"
  by (subst withExponentialBackoff.simps) simp

lemma wEB_retry:
  "fn s = (Inl e, s') \<Longrightarrow> 0 < r \<Longrightarrow>
     withExponentialBackoff fn r d (s, sl) = withExponentialBackoff fn (r - 1) (d * 2) (s', sl @ [d])"
  by (subst withExponentialBackoff.simps) simp

lemma wEB_delays:
  "\<exists>n \<le> nat r. snd (snd (withExponentialBackoff fn r d (s, sl))) = sl @ map (\<lambda>k. d * 2 ^ k) [0..<n]
       \<and> (isl (fst (withExponentialBackoff fn r d (s, sl))) \<longrightarrow> n = nat r)"
proof (induction fn r d "(s, sl)" arbitrary: s sl rule: withExponentialBackoff.induct)
  case (1 fn retries delay s slept)
  obtain res s' where f: "fn s = (res, s')" by (cases "fn s")
  show ?case
  proof (cases res)
    case (Inr v)
    with f show ?thesis by (simp add: wEB_success)
  next
    case (Inl e)
    show ?thesis
    proof (cases "retries \<le> 0")
      case True
      with f Inl show ?thesis by (simp add: wEB_exhausted)
    next
      case False
      with f Inl have eq: "withExponentialBackoff fn retries delay (s, slept) =
          withExponentialBackoff fn (retries - 1) (delay * 2) (s', slept @ [delay])"
        by (simp add: wEB_retry)
      from "1.hyps" [OF f [symmetric] _ False] Inl
      obtain n where n: "n \<le> nat (retries - 1)"
        "snd (snd (withExponentialBackoff fn (retries - 1) (delay * 2) (s', slept @ [delay]))) =
           (slept @ [delay]) @ map (\<lambda>k. delay * 2 * 2 ^ k) [0..<n]"
        "isl (fst (withExponentialBackoff fn (retries - 1) (delay * 2) (s', slept @ [delay]))) \<longrightarrow> n = nat (retries - 1)"
        by auto
      have "map (\<lambda>k. delay * 2 ^ k) [0..<Suc n] = delay # map (\<lambda>k. delay * 2 * 2 ^ k) [0..<n]"
        by (simp add: map_upt_Suc mult.assoc del: upt_Suc)
      with n False show ?thesis
        unfolding eq by (intro exI [of _ "Suc n"]) auto
    qed
  qed
qed

lemma wEB_result_of_attempt:
  "withExponentialBackoff fn r d (s, sl) = (res, s', sl') \<Longrightarrow> \<exists>s1. fn s1 = (res, s')"
proof (induction fn r d "(s, sl)" arbitrary: s sl rule: withExponentialBackoff.induct)
  case (1 fn retries delay s slept)
  obtain out s1 where f: "fn s = (out, s1)" by (cases "fn s")
  show ?case
  proof (cases out)
    case (Inr v)
    with f "1.prems" show ?thesis by (auto simp: wEB_success)
  next
    case (Inl e)
    show ?thesis
    proof (cases "retries \<le> 0")
      case True
      with f Inl "1.prems" show ?thesis by (auto simp: wEB_exhausted)
    next
      case False
      with f Inl "1.prems" have "withExponentialBackoff fn (retries - 1) (delay * 2) (s1, slept @ [delay]) = (res, s', sl')"
        by (simp add: wEB_retry)
      from "1.hyps" [OF f [symmetric] Inl False this] show ?thesis .
    qed
  qed
qed

text \<open>
  C2: with the default budget (3 retries, 1000 ms), when the first three invocations of
  the operation fail, the run is decided by the fourth: if it succeeds, its value is
  returned, and if it fails, its error is the one propagated, as it is; in both cases the
  state is the one after four invocations and the waits were 1000, 2000, 4000 ms.  For any
  budget and initial delay the waits are \<open>delay * 2 ^ k\<close> for \<open>k = 0, 1, ...\<close>, at most
  \<open>retries\<close> of them and all of them when the run fails: each is double the previous one
  and nothing caps them.
\<close>

theorem withExponentialBackoff_default_budget:
  assumes "fn s0 = (Inl e1, s1)" and "fn s1 = (Inl e2, s2)" and "fn s2 = (Inl e3, s3)"
  shows "(fn s3 = (Inr v, s4) \<longrightarrow>
            withExponentialBackoff fn 3 1000 (s0, []) = (Inr v, s4, [1000, 2000, 4000]))
       \<and> (fn s3 = (Inl e4, s4) \<longrightarrow>
            withExponentialBackoff fn 3 1000 (s0, []) = (Inl e4, s4, [1000, 2000, 4000]))
       \<and> (\<exists>n \<le> nat retries.
            snd (snd (withExponentialBackoff fn retries delay (s, []))) = map (\<lambda>k. delay * 2 ^ k) [0..<n]
            \<and> (isl (fst (withExponentialBackoff fn retries delay (s, []))) \<longrightarrow> n = nat retries))"
proof (intro conjI impI)
  have three: "withExponentialBackoff fn 3 1000 (s0, []) =
      withExponentialBackoff fn 0 8000 (s3, [1000, 2000, 4000])"
    using assms by (simp add: wEB_retry)
  show "withExponentialBackoff fn 3 1000 (s0, []) = (Inr v, s4, [1000, 2000, 4000])"
    if "fn s3 = (Inr v, s4)"
    unfolding three using that by (simp add: wEB_success)
  show "withExponentialBackoff fn 3 1000 (s0, []) = (Inl e4, s4, [1000, 2000, 4000])"
    if "fn s3 = (Inl e4, s4)"
    unfolding three using that by (simp add: wEB_exhausted)
  show "\<exists>n \<le> nat retries.
      snd (snd (withExponentialBackoff fn retries delay (s, []))) = map (\<lambda>k. delay * 2 ^ k) [0..<n]
      \<and> (isl (fst (withExponentialBackoff fn retries delay (s, []))) \<longrightarrow> n = nat retries)"
    using wEB_delays [of retries fn delay s "[]"] by simp
qed

theorem withExponentialBackoff_default_budget_witness:
  "withExponentialBackoff (flaky 3) 3 1000 (0, []) = (Inr ''ok'', 4, [1000, 2000, 4000])
   \<and> withExponentialBackoff (flaky 4) 3 1000 (0, []) = (Inl 3, 4, [1000, 2000, 4000])"
proof -
  have a: "flaky k 0 = (Inl 0, 1)" "flaky k 1 = (Inl 1, 2)" "flaky k 2 = (Inl 2, 3)"
    if "3 \<le> k" for k
    using that by (simp_all add: flaky_def)
  have b: "flaky 3 3 = (Inr ''ok'', 4)" "flaky 4 3 = (Inl 3, 4)"
    by (simp_all add: flaky_def)
  from withExponentialBackoff_default_budget [OF a [of 3], of "''ok''" 4] b(1)
  have "withExponentialBackoff (flaky 3) 3 1000 (0, []) = (Inr ''ok'', 4, [1000, 2000, 4000])"
    by simp
  moreover from withExponentialBackoff_default_budget [OF a [of 4], of _ _ 3 4] b(2)
  have "withExponentialBackoff (flaky 4) 3 1000 (0, []) = (Inl 3, 4, [1000, 2000, 4000])"
    by simp
  ultimately show ?thesis by simp
qed

subsection \<open>analyzeVideoFrames\<close>

lemma chat_send_trace:
  "chat_send sm m w = (r, w') \<Longrightarrow> trace w' = trace w @ [Inference m r]"
  by (auto simp: chat_send_def split: prod.splits)

lemma retry_send_trace:
  "withExponentialBackoff (chat_send sm m) r d (w, sl) = (res, w', sl') \<Longrightarrow>
     (case res of
        Inr t \<Rightarrow> \<exists>es. length es \<le> nat r \<and> trace w' = trace w @ rejected m es @ [answered m t]
      | Inl e \<Rightarrow> \<exists>es. length es = nat r \<and> trace w' = trace w @ rejected m es @ [Inference m (Inl e)])"
proof (induction "chat_send sm m" r d "(w, sl)" arbitrary: w sl rule: withExponentialBackoff.induct)
  case (1 retries delay w slept)
  obtain out w1 where f: "chat_send sm m w = (out, w1)"
    by (cases "chat_send sm m w")
  note tr = chat_send_trace [OF f]
  show ?case
  proof (cases out)
    case (Inr t)
    with f "1.prems" have "res = Inr t" "w' = w1"
      by (simp_all add: wEB_success)
    with tr Inr show ?thesis
      by (simp add: rejected_def answered_def exI [of _ "[]"])
  next
    case (Inl e)
    show ?thesis
    proof (cases "retries \<le> 0")
      case True
      with f Inl "1.prems" have "res = Inl e" "w' = w1"
        by (simp_all add: wEB_exhausted)
      with tr Inl True show ?thesis
        by (simp add: rejected_def)
    next
      case False
      with f Inl "1.prems" have run: "withExponentialBackoff (chat_send sm m) (retries - 1) (delay * 2)
          (w1, slept @ [delay]) = (res, w', sl')"
        by (simp add: wEB_retry)
      note ih = "1.hyps" [OF f [symmetric] Inl False run]
      have cons: "rejected m (e # es) = Inference m (Inl e) # rejected m es" for es
        by (simp add: rejected_def)
      show ?thesis
      proof (cases res)
        case (Inr t)
        with ih obtain es where "length es \<le> nat (retries - 1)"
          "trace w' = trace w1 @ rejected m es @ [answered m t]"
          by auto
        with tr Inl False have "length (e # es) \<le> nat retries"
          "trace w' = trace w @ rejected m (e # es) @ [answered m t]"
          by (auto simp: cons)
        with Inr show ?thesis by (auto intro: exI [of _ "e # es"])
      next
        case (Inl e')
        with ih obtain es where "length es = nat (retries - 1)"
          "trace w' = trace w1 @ rejected m es @ [Inference m (Inl e')]"
          by auto
        with tr \<open>out = Inl e\<close> False have "length (e # es) = nat retries"
          "trace w' = trace w @ rejected m (e # es) @ [Inference m (Inl e')]"
          by (auto simp: cons)
        with Inl show ?thesis by (auto intro: exI [of _ "e # es"])
      qed
    qed
  qed
qed

lemma frameInference_answered:
  assumes "frameInference sm i f (w, sl) = (Inr t, w', sl')"
  shows "\<exists>es. length es \<le> 3 \<and> trace w' = trace w @ rejected (frameMessage i f) es @ [answered (frameMessage i f) t]"
  using retry_send_trace [OF assms [unfolded frameInference_def]] by simp

lemma frameInference_exhausted:
  assumes "frameInference sm i f (w, sl) = (Inl e, w', sl')"
  shows "\<exists>es. length es = 3 \<and> trace w' = trace w @ rejected (frameMessage i f) es @ [Inference (frameMessage i f) (Inl e)]"
  using retry_send_trace [OF assms [unfolded frameInference_def]] by simp

lemma reportInference_answered:
  assumes "reportInference sm (w, sl) = (Inr t, w', sl')"
  shows "\<exists>es. length es \<le> 3 \<and> trace w' = trace w @ rejected reportMessage es @ [answered reportMessage t]"
  using retry_send_trace [OF assms [unfolded reportInference_def]] by simp

lemma reportInference_exhausted:
  assumes "reportInference sm (w, sl) = (Inl e, w', sl')"
  shows "\<exists>es. length es = 3 \<and> trace w' = trace w @ rejected reportMessage es @ [Inference reportMessage (Inl e)]"
  using retry_send_trace [OF assms [unfolded reportInference_def]] by simp

lemma callbacks_append: "callbacks (xs @ ys) = callbacks xs @ callbacks ys"
  by (induction xs rule: callbacks.induct) simp_all

lemma frame_answers_append: "frame_answers (xs @ ys) = frame_answers xs @ frame_answers ys"
  by (induction xs rule: frame_answers.induct) simp_all

lemma callbacks_rejected: "callbacks (rejected m es) = []"
  by (induction es) (simp_all add: rejected_def)

lemma frame_answers_rejected: "frame_answers (rejected m es) = []"
  by (induction es) (simp_all add: rejected_def)

lemma callbacks_answered: "callbacks (answered m t # evs) = callbacks evs"
  by (simp add: answered_def)

lemma frame_answers_answered:
  "frame_answers (answered (frameMessage i f) t # evs) = t # frame_answers evs"
  by (simp add: answered_def frameMessage_def)

lemma frame_answers_report:
  "frame_answers (answered reportMessage t # evs) = frame_answers evs"
  by (simp add: answered_def reportMessage_def)

lemma report_not_in_frame_calls:
  "Inference reportMessage out \<notin> set (rejected (frameMessage i f) es)"
  "Inference reportMessage out \<noteq> answered (frameMessage i f) t"
  by (auto simp: rejected_def answered_def frameMessage_def reportMessage_def)

lemma report_not_frame: "reportMessage \<noteq> frameMessage i f"
  by (simp add: frameMessage_def reportMessage_def)

lemma or_default_nonempty: "fallback \<noteq> [] \<Longrightarrow> or_default text fallback \<noteq> []"
  by (simp add: or_default_def split: option.splits)

lemma or_default_fallback: "text = None \<or> text = Some [] \<Longrightarrow> or_default text fallback = fallback"
  by (auto simp: or_default_def)

lemma or_default_text: "t \<noteq> [] \<Longrightarrow> or_default (Some t) fallback = t"
  by (simp add: or_default_def)

lemma frameResult_simps:
  "timeStr (frameResult f t) = formatTime (timestamp f)"
  "analysis (frameResult f t) = or_default t ''No analysis provided.''"
  by (simp_all add: frameResult_def)

lemma analyzeLoop_trace:
  "analyzeLoop sm i fs acc (w, sl) = (res, w', sl') \<Longrightarrow>
     \<exists>new. trace w' = trace w @ new \<and> (\<forall>out. Inference reportMessage out \<notin> set new) \<and>
       (case res of
          Inr rs \<Rightarrow> rs = acc @ callbacks new \<and> callbacks new = map2 frameResult fs (frame_answers new)
                      \<and> length (frame_answers new) = length fs
        | Inl e \<Rightarrow> length (callbacks new) < length fs)"
proof (induction fs arbitrary: i acc w sl)
  case Nil
  then show ?case by (auto intro: exI [of _ "[]"])
next
  case (Cons f fs)
  obtain out w1 sl1 where fi: "frameInference sm i f (w, sl) = (out, w1, sl1)"
    by (cases "frameInference sm i f (w, sl)")
  show ?case
  proof (cases out)
    case (Inl e)
    with fi Cons.prems have res: "res = Inl e" "w' = w1"
      by simp_all
    from frameInference_exhausted [OF fi [unfolded Inl]] obtain es where
      "trace w1 = trace w @ rejected (frameMessage i f) es @ [Inference (frameMessage i f) (Inl e)]"
      by blast
    then show ?thesis
      unfolding res
      by (intro exI [of _ "rejected (frameMessage i f) es @ [Inference (frameMessage i f) (Inl e)]"])
        (auto simp: callbacks_append callbacks_rejected report_not_in_frame_calls report_not_frame)
  next
    case (Inr t)
    let ?r = "frameResult f t"
    let ?w = "w1\<lparr>trace := trace w1 @ [FrameAnalyzed ?r]\<rparr>"
    from fi Inr Cons.prems have run: "analyzeLoop sm (i + 1) fs (acc @ [?r]) (?w, sl1) = (res, w', sl')"
      by simp
    from frameInference_answered [OF fi [unfolded Inr]] obtain es where
      tr1: "trace w1 = trace w @ rejected (frameMessage i f) es @ [answered (frameMessage i f) t]"
      by blast
    let ?seg = "rejected (frameMessage i f) es @ [answered (frameMessage i f) t, FrameAnalyzed ?r]"
    from Cons.IH [OF run] obtain new where new: "trace w' = trace ?w @ new"
      "\<forall>out. Inference reportMessage out \<notin> set new"
      "case res of
          Inr rs \<Rightarrow> rs = (acc @ [?r]) @ callbacks new \<and> callbacks new = map2 frameResult fs (frame_answers new)
                      \<and> length (frame_answers new) = length fs
        | Inl e \<Rightarrow> length (callbacks new) < length fs"
      by blast
    have cb: "callbacks (?seg @ new) = ?r # callbacks new"
      by (simp add: callbacks_append callbacks_rejected callbacks_answered)
    have fa: "frame_answers (?seg @ new) = t # frame_answers new"
      by (simp add: frame_answers_append frame_answers_rejected frame_answers_answered)
    have 1: "trace w' = trace w @ ?seg @ new"
      using new(1) tr1 by simp
    have 2: "\<forall>out. Inference reportMessage out \<notin> set (?seg @ new)"
      using new(2) by (auto simp: report_not_in_frame_calls)
    have 3: "case res of
          Inr rs \<Rightarrow> rs = acc @ callbacks (?seg @ new)
                      \<and> callbacks (?seg @ new) = map2 frameResult (f # fs) (frame_answers (?seg @ new))
                      \<and> length (frame_answers (?seg @ new)) = length (f # fs)
        | Inl e \<Rightarrow> length (callbacks (?seg @ new)) < length (f # fs)"
      unfolding cb fa using new(3) by (cases res) simp_all
    from 1 2 3 show ?thesis by blast
  qed
qed

lemma analyzeLoop_Cons_Inr:
  assumes "analyzeLoop sm i (f # fs) acc (w, sl) = (Inr rs, w', sl')"
  shows "\<exists>t w1 sl1 es. frameInference sm i f (w, sl) = (Inr t, w1, sl1) \<and> length es \<le> 3
           \<and> trace w1 = trace w @ rejected (frameMessage i f) es @ [answered (frameMessage i f) t]
           \<and> analyzeLoop sm (Suc i) fs (acc @ [frameResult f t])
                (w1\<lparr>trace := trace w1 @ [FrameAnalyzed (frameResult f t)]\<rparr>, sl1) = (Inr rs, w', sl')"
proof -
  obtain out w1 sl1 where fi: "frameInference sm i f (w, sl) = (out, w1, sl1)"
    by (cases "frameInference sm i f (w, sl)")
  with assms obtain t where t: "out = Inr t"
    by (cases out) simp_all
  from frameInference_answered [OF fi [unfolded t]] obtain es where
    es: "length es \<le> 3" "trace w1 = trace w @ rejected (frameMessage i f) es @ [answered (frameMessage i f) t]"
    by blast
  have "analyzeLoop sm (Suc i) fs (acc @ [frameResult f t])
      (w1\<lparr>trace := trace w1 @ [FrameAnalyzed (frameResult f t)]\<rparr>, sl1) = (Inr rs, w', sl')"
    using assms fi t by simp
  with fi t es show ?thesis by blast
qed

lemma analyzeVideoFrames_Inr:
  assumes "analyzeVideoFrames sm fs (w, sl) = (Inr result, w', sl')"
  shows "\<exists>rs w1 sl1 es tr. analyzeLoop sm 0 fs [] (w, sl) = (Inr rs, w1, sl1) \<and> length es \<le> 3
           \<and> trace w' = trace w1 @ rejected reportMessage es @ [answered reportMessage tr]
           \<and> result = \<lparr>frames = rs, finalReport = or_default tr ''Could not generate final report.''\<rparr>"
proof -
  obtain out w1 sl1 where lp: "analyzeLoop sm 0 fs [] (w, sl) = (out, w1, sl1)"
    by (cases "analyzeLoop sm 0 fs [] (w, sl)")
  with assms obtain rs where rs: "out = Inr rs"
    by (cases out) (simp_all add: analyzeVideoFrames_def)
  obtain out2 w2 sl2 where rp: "reportInference sm (w1, sl1) = (out2, w2, sl2)"
    by (cases "reportInference sm (w1, sl1)")
  with assms lp rs obtain tr where tr: "out2 = Inr tr"
    by (cases out2) (simp_all add: analyzeVideoFrames_def)
  from assms lp rs rp tr have res: "w' = w2"
    "result = \<lparr>frames = rs, finalReport = or_default tr ''Could not generate final report.''\<rparr>"
    by (simp_all add: analyzeVideoFrames_def)
  from reportInference_answered [OF rp [unfolded tr]] obtain es where
    "length es \<le> 3" "trace w2 = trace w1 @ rejected reportMessage es @ [answered reportMessage tr]"
    by blast
  with lp rs res show ?thesis by blast
qed

lemma three_frames_success:
  assumes "analyzeVideoFrames sm [f0, f1, f2] (w, sl) = (Inr result, w', sl')"
  shows "\<exists>es0 t0 es1 t1 es2 t2 esr tr.
           length es0 \<le> 3 \<and> length es1 \<le> 3 \<and> length es2 \<le> 3 \<and> length esr \<le> 3
         \<and> result = \<lparr>frames = [frameResult f0 t0, frameResult f1 t1, frameResult f2 t2],
                      finalReport = or_default tr ''Could not generate final report.''\<rparr>
         \<and> trace w' = trace w
              @ rejected (frameMessage 0 f0) es0 @ [answered (frameMessage 0 f0) t0, FrameAnalyzed (frameResult f0 t0)]
              @ rejected (frameMessage 1 f1) es1 @ [answered (frameMessage 1 f1) t1, FrameAnalyzed (frameResult f1 t1)]
              @ rejected (frameMessage 2 f2) es2 @ [answered (frameMessage 2 f2) t2, FrameAnalyzed (frameResult f2 t2)]
              @ rejected reportMessage esr @ [answered reportMessage tr]"
proof -
  have idx: "Suc 0 = 1" "Suc 1 = 2" by simp_all
  from analyzeVideoFrames_Inr [OF assms] obtain rs w3 sl3 esr tr where
    lp: "analyzeLoop sm 0 [f0, f1, f2] [] (w, sl) = (Inr rs, w3, sl3)"
    and r: "length esr \<le> 3" "trace w' = trace w3 @ rejected reportMessage esr @ [answered reportMessage tr]"
      "result = \<lparr>frames = rs, finalReport = or_default tr ''Could not generate final report.''\<rparr>"
    by blast
  from analyzeLoop_Cons_Inr [OF lp] obtain t0 w0 sl0 es0 where
    0: "length es0 \<le> 3" "trace w0 = trace w @ rejected (frameMessage 0 f0) es0 @ [answered (frameMessage 0 f0) t0]"
    and lp0: "analyzeLoop sm 1 [f1, f2] ([] @ [frameResult f0 t0])
        (w0\<lparr>trace := trace w0 @ [FrameAnalyzed (frameResult f0 t0)]\<rparr>, sl0) = (Inr rs, w3, sl3)"
    unfolding idx by blast
  from analyzeLoop_Cons_Inr [OF lp0] obtain t1 w1 sl1 es1 where
    1: "length es1 \<le> 3"
      "trace w1 = trace (w0\<lparr>trace := trace w0 @ [FrameAnalyzed (frameResult f0 t0)]\<rparr>)
          @ rejected (frameMessage 1 f1) es1 @ [answered (frameMessage 1 f1) t1]"
    and lp1: "analyzeLoop sm 2 [f2] (([] @ [frameResult f0 t0]) @ [frameResult f1 t1])
        (w1\<lparr>trace := trace w1 @ [FrameAnalyzed (frameResult f1 t1)]\<rparr>, sl1) = (Inr rs, w3, sl3)"
    unfolding idx by blast
  from analyzeLoop_Cons_Inr [OF lp1] obtain t2 w2 sl2 es2 where
    2: "length es2 \<le> 3"
      "trace w2 = trace (w1\<lparr>trace := trace w1 @ [FrameAnalyzed (frameResult f1 t1)]\<rparr>)
          @ rejected (frameMessage 2 f2) es2 @ [answered (frameMessage 2 f2) t2]"
    and lp2: "analyzeLoop sm (Suc 2) [] ((([] @ [frameResult f0 t0]) @ [frameResult f1 t1]) @ [frameResult f2 t2])
        (w2\<lparr>trace := trace w2 @ [FrameAnalyzed (frameResult f2 t2)]\<rparr>, sl2) = (Inr rs, w3, sl3)"
    by blast
  from lp2 have 3: "rs = [frameResult f0 t0, frameResult f1 t1, frameResult f2 t2]"
    "trace w3 = trace w2 @ [FrameAnalyzed (frameResult f2 t2)]"
    by auto
  have "trace w' = trace w
      @ rejected (frameMessage 0 f0) es0 @ [answered (frameMessage 0 f0) t0, FrameAnalyzed (frameResult f0 t0)]
      @ rejected (frameMessage 1 f1) es1 @ [answered (frameMessage 1 f1) t1, FrameAnalyzed (frameResult f1 t1)]
      @ rejected (frameMessage 2 f2) es2 @ [answered (frameMessage 2 f2) t2, FrameAnalyzed (frameResult f2 t2)]
      @ rejected reportMessage esr @ [answered reportMessage tr]"
    unfolding r(2) 3(2) using 2(2) 1(2) 0(2) by simp
  with 0(1) 1(1) 2(1) r(1) r(3) 3(1) show ?thesis by blast
qed

lemma second_frame_exhausted:
  assumes 0: "frameInference sm 0 f0 (w, sl) = (Inr t0, w1, sl1)"
    and 1: "frameInference sm 1 f1 (w1\<lparr>trace := trace w1 @ [FrameAnalyzed (frameResult f0 t0)]\<rparr>, sl1) = (Inl e, w2, sl2)"
  shows "analyzeVideoFrames sm [f0, f1, f2] (w, sl) = (Inl e, w2, sl2)"
    and "\<exists>es0 es1. length es0 \<le> 3 \<and> length es1 = 3
          \<and> trace w2 = trace w
              @ rejected (frameMessage 0 f0) es0 @ [answered (frameMessage 0 f0) t0, FrameAnalyzed (frameResult f0 t0)]
              @ rejected (frameMessage 1 f1) es1 @ [Inference (frameMessage 1 f1) (Inl e)]"
proof -
  show "analyzeVideoFrames sm [f0, f1, f2] (w, sl) = (Inl e, w2, sl2)"
    using 0 1 by (simp add: analyzeVideoFrames_def)
  from frameInference_answered [OF 0] obtain es0 where
    a: "length es0 \<le> 3" "trace w1 = trace w @ rejected (frameMessage 0 f0) es0 @ [answered (frameMessage 0 f0) t0]"
    by blast
  from frameInference_exhausted [OF 1] obtain es1 where
    b: "length es1 = 3" "trace w2 = (trace w1 @ [FrameAnalyzed (frameResult f0 t0)])
        @ rejected (frameMessage 1 f1) es1 @ [Inference (frameMessage 1 f1) (Inl e)]"
    by auto
  have "trace w2 = trace w
      @ rejected (frameMessage 0 f0) es0 @ [answered (frameMessage 0 f0) t0, FrameAnalyzed (frameResult f0 t0)]
      @ rejected (frameMessage 1 f1) es1 @ [Inference (frameMessage 1 f1) (Inl e)]"
    unfolding b(2) a(2) by simp
  with a(1) b(1) show "\<exists>es0 es1. length es0 \<le> 3 \<and> length es1 = 3
          \<and> trace w2 = trace w
              @ rejected (frameMessage 0 f0) es0 @ [answered (frameMessage 0 f0) t0, FrameAnalyzed (frameResult f0 t0)]
              @ rejected (frameMessage 1 f1) es1 @ [Inference (frameMessage 1 f1) (Inl e)]"
    by blast
qed

lemma report_after_all_frames:
  assumes "analyzeVideoFrames sm fs (w, sl) = (Inr result, w', sl')"
  shows "\<exists>new esr tr. length esr \<le> 3
           \<and> trace w' = trace w @ new @ rejected reportMessage esr @ [answered reportMessage tr]
           \<and> (\<forall>out. Inference reportMessage out \<notin> set new)
           \<and> callbacks new = frames result
           \<and> frames result = map2 frameResult fs (frame_answers new)
           \<and> length (frame_answers new) = length fs
           \<and> finalReport result = or_default tr ''Could not generate final report.''"
proof -
  from analyzeVideoFrames_Inr [OF assms] obtain rs w1 sl1 esr tr where
    lp: "analyzeLoop sm 0 fs [] (w, sl) = (Inr rs, w1, sl1)"
    and r: "length esr \<le> 3" "trace w' = trace w1 @ rejected reportMessage esr @ [answered reportMessage tr]"
      "result = \<lparr>frames = rs, finalReport = or_default tr ''Could not generate final report.''\<rparr>"
    by blast
  from analyzeLoop_trace [OF lp] obtain new where
    n: "trace w1 = trace w @ new" "\<forall>out. Inference reportMessage out \<notin> set new"
      "rs = callbacks new" "callbacks new = map2 frameResult fs (frame_answers new)"
      "length (frame_answers new) = length fs"
    by auto
  have "trace w' = trace w @ new @ rejected reportMessage esr @ [answered reportMessage tr]"
    unfolding r(2) n(1) by simp
  moreover have "callbacks new = frames result" "frames result = map2 frameResult fs (frame_answers new)"
    "finalReport result = or_default tr ''Could not generate final report.''"
    using n(3,4) r(3) by simp_all
  ultimately show ?thesis using r(1) n(2,5) by blast
qed

lemmas run_defs = analyzeVideoFrames_def frameInference_def reportInference_def fresh_def
  withExponentialBackoff.simps chat_send_def scripted_def

text \<open>
  C3: a run on the three frames \<open>[f0, f1, f2]\<close> that returns a result has made exactly
  three callbacks, for \<open>f0\<close>, \<open>f1\<close>, \<open>f2\<close> in this order and with their formatted
  timestamps; in its trace the callback of a frame follows the calls of the session for
  that frame (at most three rejected, then the one answered) and comes before the first
  call for the next frame, and the calls for the final report come after the third
  callback.  When the retry-wrapped call for \<open>f0\<close> succeeds and the one for \<open>f1\<close> fails
  (three rejected calls and a fourth, whose error is returned), the run fails with that
  error, hence without a result and its \<open>finalReport\<close>, after exactly one callback, the
  one for \<open>f0\<close>, and without any call for the report.  For any list of frames, a result is
  returned only after one callback per frame, and every call for the report comes after
  all of them.
\<close>

theorem analyzeVideoFrames_callbacks_in_order:
  "(analyzeVideoFrames sm [f0, f1, f2] (w, sl) = (Inr result, w', sl') \<longrightarrow>
      (\<exists>es0 t0 es1 t1 es2 t2 esr tr.
           length es0 \<le> 3 \<and> length es1 \<le> 3 \<and> length es2 \<le> 3 \<and> length esr \<le> 3
         \<and> result = \<lparr>frames = [frameResult f0 t0, frameResult f1 t1, frameResult f2 t2],
                      finalReport = or_default tr ''Could not generate final report.''\<rparr>
         \<and> map timeStr (frames result)
              = [formatTime (timestamp f0), formatTime (timestamp f1), formatTime (timestamp f2)]
         \<and> callbacks (drop (length (trace w)) (trace w')) = frames result
         \<and> trace w' = trace w
              @ rejected (frameMessage 0 f0) es0 @ [answered (frameMessage 0 f0) t0, FrameAnalyzed (frameResult f0 t0)]
              @ rejected (frameMessage 1 f1) es1 @ [answered (frameMessage 1 f1) t1, FrameAnalyzed (frameResult f1 t1)]
              @ rejected (frameMessage 2 f2) es2 @ [answered (frameMessage 2 f2) t2, FrameAnalyzed (frameResult f2 t2)]
              @ rejected reportMessage esr @ [answered reportMessage tr]))
   \<and> (frameInference sm 0 f0 (w, sl) = (Inr a0, v1, s1)
        \<and> frameInference sm 1 f1 (v1\<lparr>trace := trace v1 @ [FrameAnalyzed (frameResult f0 a0)]\<rparr>, s1) = (Inl e, v2, s2) \<longrightarrow>
        analyzeVideoFrames sm [f0, f1, f2] (w, sl) = (Inl e, v2, s2)
      \<and> callbacks (drop (length (trace w)) (trace v2)) = [frameResult f0 a0]
      \<and> (\<exists>es0 es1. length es0 \<le> 3 \<and> length es1 = 3
          \<and> trace v2 = trace w
              @ rejected (frameMessage 0 f0) es0 @ [answered (frameMessage 0 f0) a0, FrameAnalyzed (frameResult f0 a0)]
              @ rejected (frameMessage 1 f1) es1 @ [Inference (frameMessage 1 f1) (Inl e)]))
   \<and> (analyzeVideoFrames sm fs (u, ul) = (Inr report, u', ul') \<longrightarrow>
        (\<exists>new esr tr. length esr \<le> 3
           \<and> trace u' = trace u @ new @ rejected reportMessage esr @ [answered reportMessage tr]
           \<and> (\<forall>out. Inference reportMessage out \<notin> set new)
           \<and> callbacks new = frames report
           \<and> length (frames report) = length fs
           \<and> map timeStr (frames report) = map (\<lambda>f. formatTime (timestamp f)) fs))"
proof (intro conjI impI)
  assume "analyzeVideoFrames sm [f0, f1, f2] (w, sl) = (Inr result, w', sl')"
  from three_frames_success [OF this] obtain es0 t0 es1 t1 es2 t2 esr tr where
    len: "length es0 \<le> 3" "length es1 \<le> 3" "length es2 \<le> 3" "length esr \<le> 3"
    and res: "result = \<lparr>frames = [frameResult f0 t0, frameResult f1 t1, frameResult f2 t2],
                      finalReport = or_default tr ''Could not generate final report.''\<rparr>"
    and tr: "trace w' = trace w
              @ rejected (frameMessage 0 f0) es0 @ [answered (frameMessage 0 f0) t0, FrameAnalyzed (frameResult f0 t0)]
              @ rejected (frameMessage 1 f1) es1 @ [answered (frameMessage 1 f1) t1, FrameAnalyzed (frameResult f1 t1)]
              @ rejected (frameMessage 2 f2) es2 @ [answered (frameMessage 2 f2) t2, FrameAnalyzed (frameResult f2 t2)]
              @ rejected reportMessage esr @ [answered reportMessage tr]"
    by blast
  have ts: "map timeStr (frames result)
      = [formatTime (timestamp f0), formatTime (timestamp f1), formatTime (timestamp f2)]"
    unfolding res by (simp add: frameResult_simps)
  have cb: "callbacks (drop (length (trace w)) (trace w')) = frames result"
    unfolding tr res by (simp add: callbacks_append callbacks_rejected callbacks_answered)
  show "\<exists>es0 t0 es1 t1 es2 t2 esr tr.
           length es0 \<le> 3 \<and> length es1 \<le> 3 \<and> length es2 \<le> 3 \<and> length esr \<le> 3
         \<and> result = \<lparr>frames = [frameResult f0 t0, frameResult f1 t1, frameResult f2 t2],
                      finalReport = or_default tr ''Could not generate final report.''\<rparr>
         \<and> map timeStr (frames result)
              = [formatTime (timestamp f0), formatTime (timestamp f1), formatTime (timestamp f2)]
         \<and> callbacks (drop (length (trace w)) (trace w')) = frames result
         \<and> trace w' = trace w
              @ rejected (frameMessage 0 f0) es0 @ [answered (frameMessage 0 f0) t0, FrameAnalyzed (frameResult f0 t0)]
              @ rejected (frameMessage 1 f1) es1 @ [answered (frameMessage 1 f1) t1, FrameAnalyzed (frameResult f1 t1)]
              @ rejected (frameMessage 2 f2) es2 @ [answered (frameMessage 2 f2) t2, FrameAnalyzed (frameResult f2 t2)]
              @ rejected reportMessage esr @ [answered reportMessage tr]"
    apply (rule exI [where x = es0], rule exI [where x = t0], rule exI [where x = es1])
    apply (rule exI [where x = t1], rule exI [where x = es2], rule exI [where x = t2])
    apply (rule exI [where x = esr], rule exI [where x = tr])
    apply (intro conjI)
    apply (rule len res ts cb tr)+
    done
next
  assume h: "frameInference sm 0 f0 (w, sl) = (Inr a0, v1, s1)
        \<and> frameInference sm 1 f1 (v1\<lparr>trace := trace v1 @ [FrameAnalyzed (frameResult f0 a0)]\<rparr>, s1) = (Inl e, v2, s2)"
  then have h0: "frameInference sm 0 f0 (w, sl) = (Inr a0, v1, s1)"
    and h1: "frameInference sm 1 f1 (v1\<lparr>trace := trace v1 @ [FrameAnalyzed (frameResult f0 a0)]\<rparr>, s1) = (Inl e, v2, s2)"
    by simp_all
  show "analyzeVideoFrames sm [f0, f1, f2] (w, sl) = (Inl e, v2, s2)"
    by (rule second_frame_exhausted(1) [OF h0 h1])
  from second_frame_exhausted(2) [OF h0 h1] obtain es0 es1 where
    sh: "length es0 \<le> 3" "length es1 = 3"
      "trace v2 = trace w
          @ rejected (frameMessage 0 f0) es0 @ [answered (frameMessage 0 f0) a0, FrameAnalyzed (frameResult f0 a0)]
          @ rejected (frameMessage 1 f1) es1 @ [Inference (frameMessage 1 f1) (Inl e)]"
    by blast
  show "callbacks (drop (length (trace w)) (trace v2)) = [frameResult f0 a0]"
    unfolding sh(3) by (simp add: callbacks_append callbacks_rejected callbacks_answered)
  from sh show "\<exists>es0 es1. length es0 \<le> 3 \<and> length es1 = 3
          \<and> trace v2 = trace w
              @ rejected (frameMessage 0 f0) es0 @ [answered (frameMessage 0 f0) a0, FrameAnalyzed (frameResult f0 a0)]
              @ rejected (frameMessage 1 f1) es1 @ [Inference (frameMessage 1 f1) (Inl e)]"
    by blast
next
  assume "analyzeVideoFrames sm fs (u, ul) = (Inr report, u', ul')"
  from report_after_all_frames [OF this] obtain new esr tr where
    g: "length esr \<le> 3"
      "trace u' = trace u @ new @ rejected reportMessage esr @ [answered reportMessage tr]"
      "\<forall>out. Inference reportMessage out \<notin> set new"
      "callbacks new = frames report"
      "frames report = map2 frameResult fs (frame_answers new)"
      "length (frame_answers new) = length fs"
    by blast
  have "length (frames report) = length fs"
    unfolding g(5) using g(6) by simp
  moreover have "map timeStr (frames report) = map (\<lambda>f. formatTime (timestamp f)) fs"
    unfolding g(5) using g(6)
    by (intro nth_equalityI) (simp_all add: frameResult_simps)
  ultimately show "\<exists>new esr tr. length esr \<le> 3
           \<and> trace u' = trace u @ new @ rejected reportMessage esr @ [answered reportMessage tr]
           \<and> (\<forall>out. Inference reportMessage out \<notin> set new)
           \<and> callbacks new = frames report
           \<and> length (frames report) = length fs
           \<and> map timeStr (frames report) = map (\<lambda>f. formatTime (timestamp f)) fs"
    using g(1-4) by blast
qed

theorem analyzeVideoFrames_callbacks_in_order_witness:
  "(\<exists>result w' sl'.
      analyzeVideoFrames (scripted [1, 2] (Some ''a'')) [frame_at 0, frame_at 3, frame_at 6] fresh
        = (Inr result, w', sl')
      \<and> callbacks (trace w') = frames result \<and> length (frames result) = 3
      \<and> map timeStr (frames result) = [''00:00'', ''00:03'', ''00:06''])
   \<and> (\<exists>v2 s2.
      analyzeVideoFrames (scripted [1, 2, 3, 4] (Some ''a'')) [frame_at 0, frame_at 3, frame_at 6] fresh
        = (Inl 4, v2, s2)
      \<and> callbacks (trace v2) = [frameResult (frame_at 0) (Some ''a'')])"
proof (intro conjI)
  let ?sm = "scripted [1, 2] (Some ''a'')"
  let ?fs = "[frame_at 0, frame_at 3, frame_at 6]"
  let ?w = "\<lparr>chat = 0::nat, trace = [] :: nat event list\<rparr>"
  let ?X = "analyzeVideoFrames ?sm ?fs (?w, [])"
  have "\<not> isl (fst ?X)"
    by (simp add: run_defs)
  then obtain result where "fst ?X = Inr result"
    by (cases "fst ?X") simp_all
  then have run: "?X = (Inr result, fst (snd ?X), snd (snd ?X))"
    by (simp add: prod_eq_iff)
  from analyzeVideoFrames_callbacks_in_order [THEN conjunct1, rule_format, OF run]
  have "callbacks (trace (fst (snd ?X))) = frames result"
    "map timeStr (frames result)
       = [formatTime (timestamp (frame_at 0)), formatTime (timestamp (frame_at 3)), formatTime (timestamp (frame_at 6))]"
    by auto
  moreover from analyzeVideoFrames_callbacks_in_order [THEN conjunct2, THEN conjunct2, rule_format, OF run]
  have "length (frames result) = 3"
    by auto
  moreover have "formatTime (timestamp (frame_at 0)) = ''00:00''" "formatTime (timestamp (frame_at 3)) = ''00:03''"
    "formatTime (timestamp (frame_at 6)) = ''00:06''"
    by (simp_all add: frame_at_def formatTime_def js_rem_def toString_def padStart_def digits.simps digit_char_def)
  ultimately show "\<exists>result w' sl'. analyzeVideoFrames ?sm ?fs fresh = (Inr result, w', sl')
      \<and> callbacks (trace w') = frames result \<and> length (frames result) = 3
      \<and> map timeStr (frames result) = [''00:00'', ''00:03'', ''00:06'']"
    using run unfolding fresh_def by (intro exI [of _ result] exI [of _ "fst (snd ?X)"] exI [of _ "snd (snd ?X)"]) simp
next
  let ?sm = "scripted [1, 2, 3, 4] (Some ''a'')"
  let ?f0 = "frame_at 0" and ?f1 = "frame_at 3" and ?f2 = "frame_at 6"
  let ?w = "\<lparr>chat = 0::nat, trace = [] :: nat event list\<rparr>"
  let ?v1 = "\<lparr>chat = 1::nat, trace = [Inference (frameMessage 0 ?f0) (Inr (Some ''a'')) :: nat event]\<rparr>"
  let ?Y = "frameInference ?sm 1 ?f1 (?v1\<lparr>trace := trace ?v1 @ [FrameAnalyzed (frameResult ?f0 (Some ''a''))]\<rparr>, [])"
  have h0: "frameInference ?sm 0 ?f0 (?w, []) = (Inr (Some ''a''), ?v1, [])"
    by (simp add: run_defs)
  have "fst ?Y = Inl 4"
    by (simp add: run_defs)
  then have h1: "?Y = (Inl 4, fst (snd ?Y), snd (snd ?Y))"
    by (simp add: prod_eq_iff)
  from analyzeVideoFrames_callbacks_in_order [THEN conjunct2, THEN conjunct1, rule_format, OF conjI, OF h0 h1]
  have "analyzeVideoFrames ?sm [?f0, ?f1, ?f2] (?w, []) = (Inl 4, fst (snd ?Y), snd (snd ?Y))"
    "callbacks (trace (fst (snd ?Y))) = [frameResult ?f0 (Some ''a'')]"
    by simp_all
  then show "\<exists>v2 s2. analyzeVideoFrames ?sm [?f0, ?f1, ?f2] fresh = (Inl 4, v2, s2)
      \<and> callbacks (trace v2) = [frameResult ?f0 (Some ''a'')]"
    unfolding fresh_def by blast
qed

lemma analyzeVideoFrames_empty_report:
  assumes lp: "analyzeLoop sm 0 fs [] (w, sl) = (Inr rs, w1, sl1)"
    and rp: "sm reportMessage (chat w1) = (Inr t, c)"
  shows "fst (analyzeVideoFrames sm fs (w, sl))
           = Inr \<lparr>frames = rs, finalReport = or_default t ''Could not generate final report.''\<rparr>"
proof -
  have "chat_send sm reportMessage w1 = (Inr t, w1\<lparr>chat := c, trace := trace w1 @ [Inference reportMessage (Inr t)]\<rparr>)"
    using rp by (simp add: chat_send_def)
  then have "reportInference sm (w1, sl1)
      = (Inr t, w1\<lparr>chat := c, trace := trace w1 @ [Inference reportMessage (Inr t)]\<rparr>, sl1)"
    unfolding reportInference_def by (rule wEB_success)
  with lp show ?thesis
    by (simp add: analyzeVideoFrames_def)
qed

text \<open>
  C10: in the result of a run that succeeds, no frame's analysis and no final report is
  the empty string.  Each frame's analysis is made from the text the session answered
  for that frame: the text itself when it is not empty, and \<open>No analysis provided.\<close> when
  it is empty or missing; the final report likewise is the answered text or
  \<open>Could not generate final report.\<close>  When the loop over the frames has succeeded and
  the session answers the report request with an empty or missing text, the run returns
  a result, with that fallback as its report.
\<close>

theorem analyzeVideoFrames_fallback_strings:
  "(analyzeVideoFrames sm fs (w, sl) = (Inr result, w', sl') \<longrightarrow>
      (\<forall>r \<in> set (frames result). analysis r \<noteq> []) \<and> finalReport result \<noteq> []
    \<and> (\<exists>new esr tr.
          trace w' = trace w @ new @ rejected reportMessage esr @ [answered reportMessage tr]
        \<and> length (frame_answers new) = length fs
        \<and> frames result = map2 frameResult fs (frame_answers new)
        \<and> (\<forall>k < length fs. frame_answers new ! k = None \<or> frame_answers new ! k = Some [] \<longrightarrow>
              analysis (frames result ! k) = ''No analysis provided.'')
        \<and> (\<forall>k < length fs. \<forall>t. frame_answers new ! k = Some t \<and> t \<noteq> [] \<longrightarrow>
              analysis (frames result ! k) = t)
        \<and> finalReport result = or_default tr ''Could not generate final report.''
        \<and> (tr = None \<or> tr = Some [] \<longrightarrow> finalReport result = ''Could not generate final report.'')))
   \<and> (analyzeLoop sm 0 fs [] (w, sl) = (Inr rs, w1, sl1) \<and> sm reportMessage (chat w1) = (Inr t, c)
        \<and> (t = None \<or> t = Some []) \<longrightarrow>
        fst (analyzeVideoFrames sm fs (w, sl))
          = Inr \<lparr>frames = rs, finalReport = ''Could not generate final report.''\<rparr>)"
proof (intro conjI impI)
  assume run: "analyzeVideoFrames sm fs (w, sl) = (Inr result, w', sl')"
  from report_after_all_frames [OF run] obtain new esr tr where
    g: "trace w' = trace w @ new @ rejected reportMessage esr @ [answered reportMessage tr]"
      "frames result = map2 frameResult fs (frame_answers new)"
      "length (frame_answers new) = length fs"
      "finalReport result = or_default tr ''Could not generate final report.''"
    by blast
  have nth: "frames result ! k = frameResult (fs ! k) (frame_answers new ! k)" if "k < length fs" for k
    unfolding g(2) using that g(3) by simp
  show "\<forall>r \<in> set (frames result). analysis r \<noteq> []"
    unfolding g(2) by (auto simp: frameResult_simps or_default_nonempty dest!: set_zip_rightD)
  show "finalReport result \<noteq> []"
    unfolding g(4) by (simp add: or_default_nonempty)
  have a: "\<forall>k < length fs. frame_answers new ! k = None \<or> frame_answers new ! k = Some [] \<longrightarrow>
      analysis (frames result ! k) = ''No analysis provided.''"
    by (auto simp: nth frameResult_simps or_default_fallback)
  have b: "\<forall>k < length fs. \<forall>t. frame_answers new ! k = Some t \<and> t \<noteq> [] \<longrightarrow>
      analysis (frames result ! k) = t"
    by (auto simp: nth frameResult_simps or_default_text)
  have c: "tr = None \<or> tr = Some [] \<longrightarrow> finalReport result = ''Could not generate final report.''"
    unfolding g(4) by (auto simp: or_default_fallback)
  show "\<exists>new esr tr.
          trace w' = trace w @ new @ rejected reportMessage esr @ [answered reportMessage tr]
        \<and> length (frame_answers new) = length fs
        \<and> frames result = map2 frameResult fs (frame_answers new)
        \<and> (\<forall>k < length fs. frame_answers new ! k = None \<or> frame_answers new ! k = Some [] \<longrightarrow>
              analysis (frames result ! k) = ''No analysis provided.'')
        \<and> (\<forall>k < length fs. \<forall>t. frame_answers new ! k = Some t \<and> t \<noteq> [] \<longrightarrow>
              analysis (frames result ! k) = t)
        \<and> finalReport result = or_default tr ''Could not generate final report.''
        \<and> (tr = None \<or> tr = Some [] \<longrightarrow> finalReport result = ''Could not generate final report.'')"
    apply (rule exI [where x = new], rule exI [where x = esr], rule exI [where x = tr])
    apply (intro conjI)
    apply (rule g a b c)+
    done
next
  assume "analyzeLoop sm 0 fs [] (w, sl) = (Inr rs, w1, sl1) \<and> sm reportMessage (chat w1) = (Inr t, c)
      \<and> (t = None \<or> t = Some [])"
  then have lp: "analyzeLoop sm 0 fs [] (w, sl) = (Inr rs, w1, sl1)"
    and rp: "sm reportMessage (chat w1) = (Inr t, c)" and t: "t = None \<or> t = Some []"
    by simp_all
  show "fst (analyzeVideoFrames sm fs (w, sl))
      = Inr \<lparr>frames = rs, finalReport = ''Could not generate final report.''\<rparr>"
    using analyzeVideoFrames_empty_report [OF lp rp] or_default_fallback [OF t] by simp
qed

theorem analyzeVideoFrames_fallback_strings_witness:
  "fst (analyzeVideoFrames (scripted [1] None) [frame_at 0, frame_at 3] fresh)
     = Inr \<lparr>frames = [\<lparr>timeStr = ''00:00'', analysis = ''No analysis provided.''\<rparr>,
                       \<lparr>timeStr = ''00:03'', analysis = ''No analysis provided.''\<rparr>],
            finalReport = ''Could not generate final report.''\<rparr>
   \<and> (\<exists>result w' sl'.
        analyzeVideoFrames (scripted [1] None) [frame_at 0, frame_at 3] fresh = (Inr result, w', sl')
        \<and> finalReport result \<noteq> [])"
proof (intro conjI)
  let ?sm = "scripted [1] None"
  let ?fs = "[frame_at 0, frame_at 3]"
  let ?w = "\<lparr>chat = 0::nat, trace = [] :: nat event list\<rparr>"
  let ?L = "analyzeLoop ?sm 0 ?fs [] (?w, [])"
  let ?rs = "[\<lparr>timeStr = ''00:00'', analysis = ''No analysis provided.''\<rparr>,
              \<lparr>timeStr = ''00:03'', analysis = ''No analysis provided.''\<rparr>]"
  have ft: "formatTime 0 = ''00:00''" "formatTime 3 = ''00:03''"
    by (simp_all add: formatTime_def js_rem_def toString_def padStart_def digits.simps digit_char_def)
  have "fst ?L = Inr ?rs" "chat (fst (snd ?L)) = 3"
    by (simp_all add: run_defs frameResult_def or_default_def frame_at_def ft)
  then have lp: "?L = (Inr ?rs, fst (snd ?L), snd (snd ?L))"
    and rp: "?sm reportMessage (chat (fst (snd ?L))) = (Inr None, 4)"
    by (simp_all add: prod_eq_iff scripted_def)
  from analyzeVideoFrames_fallback_strings [THEN conjunct2, rule_format, OF conjI, OF lp conjI, OF rp]
  show "fst (analyzeVideoFrames ?sm ?fs fresh) = Inr \<lparr>frames = ?rs,
      finalReport = ''Could not generate final report.''\<rparr>"
    unfolding fresh_def by simp
  let ?X = "analyzeVideoFrames ?sm ?fs (?w, [])"
  have "\<not> isl (fst ?X)"
    by (simp add: run_defs)
  then obtain result where "fst ?X = Inr result"
    by (cases "fst ?X") simp_all
  then have run: "?X = (Inr result, fst (snd ?X), snd (snd ?X))"
    by (simp add: prod_eq_iff)
  from analyzeVideoFrames_fallback_strings [THEN conjunct1, rule_format, OF run]
  have "finalReport result \<noteq> []"
    by simp
  with run show "\<exists>result w' sl'. analyzeVideoFrames ?sm ?fs fresh = (Inr result, w', sl')
      \<and> finalReport result \<noteq> []"
    unfolding fresh_def
    by (intro exI [of _ result] exI [of _ "fst (snd ?X)"] exI [of _ "snd (snd ?X)"]) simp
qed

subsection \<open>analyzeImage\<close>

lemma attempt_cases:
  "analyzeImage_attempt P g img s = (Inl err, s') \<Longrightarrow>
     err = Error ''No response from Gemini'' \<or> err = SyntaxError \<or> (\<exists>e. err = Thrown e)"
  by (auto simp: analyzeImage_attempt_def split: prod.splits sum.splits option.splits if_splits)

lemma attempt_parsed:
  "analyzeImage_attempt P g img s = (Inr v, s') \<Longrightarrow>
     \<exists>t. t \<noteq> [] \<and> g img s = (Inr (Some t), s') \<and> P t = Some v"
  by (auto simp: analyzeImage_attempt_def split: prod.splits sum.splits option.splits if_splits)

text \<open>
  C5, as the code has it: \<open>analyzeImage\<close> validates nothing.  When the service answers
  with a non-empty text that \<open>JSON.parse\<close> accepts, the parsed value is the result, whatever
  its shape; every result is the parse of such a text.  The errors of a failed run are the
  rejection of the service call, \<open>No response from Gemini\<close> for a missing or empty text,
  and the \<open>SyntaxError\<close> of \<open>JSON.parse\<close>, each after three retries.
\<close>

theorem analyzeImage_returns_parsed_value:
  "(generateContent img s = (Inr (Some t), s') \<and> t \<noteq> [] \<and> JSON_parse t = Some v \<longrightarrow>
       analyzeImage JSON_parse generateContent img (s, sl) = (Inr v, s', sl))
   \<and> (analyzeImage JSON_parse generateContent img (s, sl) = (Inr v', s'', sl'') \<longrightarrow>
       (\<exists>s1 t'. t' \<noteq> [] \<and> generateContent img s1 = (Inr (Some t'), s'') \<and> JSON_parse t' = Some v'))
   \<and> (analyzeImage JSON_parse generateContent img (s, sl) = (Inl err, s'', sl'') \<longrightarrow>
       (err = Error ''No response from Gemini'' \<or> err = SyntaxError \<or> (\<exists>e. err = Thrown e))
       \<and> sl'' = sl @ [1000, 2000, 4000])"
proof (intro conjI impI)
  assume "generateContent img s = (Inr (Some t), s') \<and> t \<noteq> [] \<and> JSON_parse t = Some v"
  then have "analyzeImage_attempt JSON_parse generateContent img s = (Inr v, s')"
    by (simp add: analyzeImage_attempt_def)
  then show "analyzeImage JSON_parse generateContent img (s, sl) = (Inr v, s', sl)"
    unfolding analyzeImage_def by (rule wEB_success)
next
  assume "analyzeImage JSON_parse generateContent img (s, sl) = (Inr v', s'', sl'')"
  from wEB_result_of_attempt [OF this [unfolded analyzeImage_def]]
  obtain s1 where "analyzeImage_attempt JSON_parse generateContent img s1 = (Inr v', s'')"
    by blast
  from attempt_parsed [OF this]
  show "\<exists>s1 t'. t' \<noteq> [] \<and> generateContent img s1 = (Inr (Some t'), s'') \<and> JSON_parse t' = Some v'"
    by blast
next
  assume run: "analyzeImage JSON_parse generateContent img (s, sl) = (Inl err, s'', sl'')"
  from wEB_result_of_attempt [OF run [unfolded analyzeImage_def]]
  obtain s1 where "analyzeImage_attempt JSON_parse generateContent img s1 = (Inl err, s'')"
    by blast
  from attempt_cases [OF this]
  show "err = Error ''No response from Gemini'' \<or> err = SyntaxError \<or> (\<exists>e. err = Thrown e)" .
  from wEB_delays [of 3 "analyzeImage_attempt JSON_parse generateContent img" 1000 s sl]
  obtain n where "n \<le> 3" "sl'' = sl @ map (\<lambda>k. 1000 * 2 ^ k) [0..<n]" "n = 3"
    using run unfolding analyzeImage_def by auto
  then show "sl'' = sl @ [1000, 2000, 4000]"
    by (simp add: upt_rec [of _ 3] upt_rec [of _ "Suc (Suc (Suc 0))"] numeral_3_eq_3)
qed

text \<open>
  C5 as stated fails: a response that is JSON and whose only object has the confidence
  \<open>VeryHigh\<close> does not conform to the schema, and \<open>analyzeImage\<close> returns it, at the first
  attempt.
\<close>

theorem analyzeImage_accepts_VeryHigh:
  "analyzeImage parse_veryHigh answer_veryHigh ''img'' (0, []) = (Inr veryHigh_value, 1, [])
   \<and> \<not> conforms_ImageAnalysisResult veryHigh_value"
  by (simp add: analyzeImage_def analyzeImage_attempt_def withExponentialBackoff.simps
      parse_veryHigh_def answer_veryHigh_def veryHigh_text_def veryHigh_value_def is_confidence_def)

theorem analyzeImage_returns_parsed_value_witness:
  "analyzeImage parse_veryHigh answer_veryHigh ''snapshot'' (5, [7]) = (Inr veryHigh_value, 6, [7])
   \<and> snd (snd (analyzeImage parse_veryHigh (\<lambda>img n. (Inr None :: unit + string option, n + 1))
         ''snapshot'' (0::nat, [])))
       = [1000, 2000, 4000]"
proof
  have "answer_veryHigh ''snapshot'' 5 = (Inr (Some veryHigh_text), 6) \<and> veryHigh_text \<noteq> []
      \<and> parse_veryHigh veryHigh_text = Some veryHigh_value"
    by (simp add: answer_veryHigh_def parse_veryHigh_def veryHigh_text_def)
  from analyzeImage_returns_parsed_value
    [where generateContent = answer_veryHigh and JSON_parse = parse_veryHigh and t = veryHigh_text,
      THEN conjunct1, rule_format, OF this]
  show "analyzeImage parse_veryHigh answer_veryHigh ''snapshot'' (5, [7]) = (Inr veryHigh_value, 6, [7])"
    by simp
next
  let ?g = "\<lambda>(img::string) (n::nat). (Inr None :: unit + string option, n + 1)"
  let ?X = "analyzeImage parse_veryHigh ?g ''snapshot'' (0, [])"
  have "fst ?X = Inl (Error ''No response from Gemini'')"
    by (simp add: analyzeImage_def analyzeImage_attempt_def withExponentialBackoff.simps)
  then have "?X = (Inl (Error ''No response from Gemini''), fst (snd ?X), snd (snd ?X))"
    by (simp add: prod_eq_iff)
  from analyzeImage_returns_parsed_value
    [where generateContent = ?g and JSON_parse = parse_veryHigh,
      THEN conjunct2, THEN conjunct2, rule_format, OF this]
  show "snd (snd ?X) = [1000, 2000, 4000]"
    by simp
qed

subsection \<open>startCamera\<close>

lemma cleared_simps:
  "devices ((stopCamera c)\<lparr>error := None, permissionDenied := False\<rparr>) = devices c"
  "requested ((stopCamera c)\<lparr>error := None, permissionDenied := False\<rparr>) = requested c"
  by (simp_all add: stopCamera_def split: option.splits)

lemma showError_frame:
  "requested (showError err c) = requested c" "devices (showError err c) = devices c"
  "streamRef (showError err c) = streamRef c" "isStreaming (showError err c) = False"
  "error (showError err c) \<noteq> None"
  by (simp_all add: showError_def Let_def)

lemma acquireStream_hd:
  assumes "supported" and "getUserMedia HD (devices c) = (Inr stream, d1)"
  shows "acquireStream supported getUserMedia c =
    (case stream of
       None \<Rightarrow> (Inl (Exception ''Error'' ''Could not initialize video stream.''),
                 c\<lparr>devices := d1, requested := requested c @ [HD]\<rparr>)
     | Some st \<Rightarrow> (Inr st, c\<lparr>devices := d1, requested := requested c @ [HD]\<rparr>))"
  using assms by (simp add: acquireStream_def request_def split: option.splits)

lemma acquireStream_fallback:
  assumes "supported" and "getUserMedia HD (devices c) = (Inl hdError, d1)"
    and "getUserMedia Basic d1 = (out, d2)"
  shows "acquireStream supported getUserMedia c =
    (case out of
       Inl basicError \<Rightarrow> (Inl basicError, c\<lparr>devices := d2, requested := requested c @ [HD, Basic]\<rparr>)
     | Inr None \<Rightarrow> (Inl (Exception ''Error'' ''Could not initialize video stream.''),
                 c\<lparr>devices := d2, requested := requested c @ [HD, Basic]\<rparr>)
     | Inr (Some st) \<Rightarrow> (Inr st, c\<lparr>devices := d2, requested := requested c @ [HD, Basic]\<rparr>))"
  using assms by (simp add: acquireStream_def request_def split: option.splits sum.splits)

text \<open>Where the camera API does not exist, no request is made and the component says so.\<close>

lemma startCamera_unsupported:
  "requested (startCamera False getUserMedia mounted c) = requested c"
  "error (startCamera False getUserMedia mounted c)
     = Some ''Camera API is not supported in this browser or context.''"
  "\<not> isStreaming (startCamera False getUserMedia mounted c)"
  by (simp_all add: startCamera_def acquireStream_def showError_def Let_def stopCamera_def
      split: option.splits)

text \<open>
  C8: where the camera API exists, \<open>startCamera\<close> requests the \<open>HD\<close> constraints first.  It
  makes no second request when that one is granted, and requests \<open>Basic\<close> (any video
  device) when it is rejected.  When the fallback is granted the component streams and
  shows no error.  When both are rejected, the value thrown out of the \<open>try\<close> block is
  the one the second request was rejected with, and what the component shows is made
  from that value alone: the error of the first request appears nowhere in the state.
\<close>

theorem startCamera_two_tier:
  assumes "supported"
  shows "(getUserMedia HD (devices c) = (Inr stream, d) \<longrightarrow>
            requested (startCamera supported getUserMedia mounted c) = requested c @ [HD])
       \<and> (getUserMedia HD (devices c) = (Inl hdError, d) \<longrightarrow>
            requested (startCamera supported getUserMedia mounted c) = requested c @ [HD, Basic])
       \<and> (getUserMedia HD (devices c) = (Inl hdError, d) \<and> getUserMedia Basic d = (Inr (Some st), d') \<longrightarrow>
            streamRef (startCamera supported getUserMedia mounted c) = Some st
          \<and> isStreaming (startCamera supported getUserMedia mounted c)
          \<and> error (startCamera supported getUserMedia mounted c) = None)
       \<and> (getUserMedia HD (devices c) = (Inl hdError, d) \<and> getUserMedia Basic d = (Inl basicError, d') \<longrightarrow>
            fst (acquireStream supported getUserMedia ((stopCamera c)\<lparr>error := None, permissionDenied := False\<rparr>))
              = Inl basicError
          \<and> startCamera supported getUserMedia mounted c
              = showError basicError
                  ((stopCamera c)\<lparr>error := None, permissionDenied := False, devices := d',
                                  requested := requested c @ [HD, Basic]\<rparr>))"
proof (intro conjI impI)
  let ?c = "(stopCamera c)\<lparr>error := None, permissionDenied := False\<rparr>"
  {
    assume hd: "getUserMedia HD (devices c) = (Inr stream, d)"
    from acquireStream_hd [OF assms, of getUserMedia ?c stream d] hd
    show "requested (startCamera supported getUserMedia mounted c) = requested c @ [HD]"
      by (cases stream) (simp_all add: startCamera_def cleared_simps showError_frame)
  }
  {
    assume hd: "getUserMedia HD (devices c) = (Inl hdError, d)"
    obtain out d' where b: "getUserMedia Basic d = (out, d')"
      by (cases "getUserMedia Basic d")
    from acquireStream_fallback [OF assms, of getUserMedia ?c hdError d out d'] hd b
    show "requested (startCamera supported getUserMedia mounted c) = requested c @ [HD, Basic]"
      by (cases out; cases "projr out")
        (simp_all add: startCamera_def cleared_simps showError_frame split: option.splits)
  }
  {
    assume "getUserMedia HD (devices c) = (Inl hdError, d) \<and> getUserMedia Basic d = (Inr (Some st), d')"
    then have hd: "getUserMedia HD (devices c) = (Inl hdError, d)"
      and b: "getUserMedia Basic d = (Inr (Some st), d')"
      by simp_all
    from acquireStream_fallback [OF assms, of getUserMedia ?c hdError d "Inr (Some st)" d'] hd b
    have acq: "acquireStream supported getUserMedia ?c
        = (Inr st, ?c\<lparr>devices := d', requested := requested ?c @ [HD, Basic]\<rparr>)"
      by (simp add: cleared_simps)
    show "streamRef (startCamera supported getUserMedia mounted c) = Some st"
      "isStreaming (startCamera supported getUserMedia mounted c)"
      "error (startCamera supported getUserMedia mounted c) = None"
      by (simp_all add: startCamera_def acq)
  }
  {
    assume "getUserMedia HD (devices c) = (Inl hdError, d) \<and> getUserMedia Basic d = (Inl basicError, d')"
    then have hd: "getUserMedia HD (devices c) = (Inl hdError, d)"
      and b: "getUserMedia Basic d = (Inl basicError, d')"
      by simp_all
    from acquireStream_fallback [OF assms, of getUserMedia ?c hdError d "Inl basicError" d'] hd b
    have acq: "acquireStream supported getUserMedia ?c
        = (Inl basicError, ?c\<lparr>devices := d', requested := requested c @ [HD, Basic]\<rparr>)"
      by (simp add: cleared_simps)
    show "fst (acquireStream supported getUserMedia ?c) = Inl basicError"
      by (simp add: acq)
    show "startCamera supported getUserMedia mounted c
        = showError basicError (?c\<lparr>devices := d', requested := requested c @ [HD, Basic]\<rparr>)"
      by (simp add: startCamera_def acq)
  }
qed

theorem startCamera_two_tier_witness:
  "requested (startCamera True no_camera True closed_webcam) = [HD, Basic]
   \<and> error (startCamera True no_camera True closed_webcam)
       = Some ''Camera access was denied. Please allow camera access in your browser settings to continue.''
   \<and> permissionDenied (startCamera True no_camera True closed_webcam)"
proof -
  have hd: "no_camera HD (devices closed_webcam) = (Inl (Exception ''NotReadableError'' ''busy''), 1)"
    and b: "no_camera Basic 1 = (Inl (Exception ''NotAllowedError'' ''denied''), 2)"
    by (simp_all add: no_camera_def closed_webcam_def)
  from startCamera_two_tier [where supported = True and getUserMedia = no_camera
      and c = closed_webcam and mounted = True and d = 1 and d' = 2
      and hdError = "Exception ''NotReadableError'' ''busy''"
      and basicError = "Exception ''NotAllowedError'' ''denied''",
      OF TrueI, THEN conjunct2, THEN conjunct2, THEN conjunct2, rule_format, OF conjI, OF hd b]
  have "startCamera True no_camera True closed_webcam
      = showError (Exception ''NotAllowedError'' ''denied'')
          ((stopCamera closed_webcam)\<lparr>error := None, permissionDenied := False, devices := 2,
              requested := requested closed_webcam @ [HD, Basic]\<rparr>)"
    by simp
  then show ?thesis
    by (simp add: showError_def stopCamera_def closed_webcam_def)
qed

subsection \<open>The overlay\<close>

lemma length_BOX_COLORS: "length BOX_COLORS = 8"
  by (simp add: BOX_COLORS_def)

lemma first_occurrences_snoc:
  "first_occurrences (xs @ [x]) = (if x \<in> set xs then first_occurrences xs else first_occurrences xs @ [x])"
  by (simp add: first_occurrences_def)

lemma set_first_occurrences: "set (first_occurrences xs) = set xs"
  by (simp add: first_occurrences_def)

lemma distinct_first_occurrences: "distinct (first_occurrences xs)"
  by (simp add: first_occurrences_def)

lemma in_order_names: "in_order ds t \<Longrightarrow> map name (counts t) = ds"
proof -
  assume "in_order ds t"
  then have "map fst (map (\<lambda>a. (name a, colorIndex a)) (counts t))
      = map fst (zip ds (map (\<lambda>k. Some (k mod 8)) [0..<length ds]))"
    by (simp add: in_order_def)
  then show ?thesis by (simp add: comp_def)
qed

lemma in_order_lookup: "in_order ds t \<Longrightarrow> nameColorMap t n = None \<longleftrightarrow> n \<notin> set ds"
  by (simp add: in_order_def map_of_zip_is_None)

lemma in_order_find: "in_order ds t \<Longrightarrow> find (\<lambda>a. name a = n) (counts t) = None \<longleftrightarrow> n \<notin> set ds"
proof -
  assume "in_order ds t"
  from in_order_names [OF this] have "set ds = name ` set (counts t)"
    by (metis set_map)
  then show ?thesis by (auto simp: find_None_iff)
qed

lemma bump_preserves:
  "map (\<lambda>a. (name a, colorIndex a)) (map (\<lambda>a. if name a = n then a\<lparr>count := count a + 1\<rparr> else a) as)
     = map (\<lambda>a. (name a, colorIndex a)) as"
  by (induction as) simp_all

lemma tally_step_old:
  assumes "in_order ds t" and "name obj \<in> set ds"
  shows "in_order ds (tally_step inherited t obj)"
proof -
  obtain c where 1: "nameColorMap t (name obj) = Some c"
    using in_order_lookup [OF assms(1), of "name obj"] assms(2) by auto
  obtain a where 2: "find (\<lambda>a. name a = name obj) (counts t) = Some a"
    using in_order_find [OF assms(1), of "name obj"] assms(2) by auto
  have step: "tally_step inherited t obj =
      t\<lparr>counts := map (\<lambda>a. if name a = name obj then a\<lparr>count := count a + 1\<rparr> else a) (counts t)\<rparr>"
    by (simp add: tally_step_def Let_def 1 2)
  have c1: "colorCounter (tally_step inherited t obj) = colorCounter t"
    and c2: "nameColorMap (tally_step inherited t obj) = nameColorMap t"
    by (simp_all add: step)
  have cnt: "counts (tally_step inherited t obj)
      = map (\<lambda>a. if name a = name obj then a\<lparr>count := count a + 1\<rparr> else a) (counts t)"
    by (simp add: step)
  have c3: "map (\<lambda>a. (name a, colorIndex a)) (counts (tally_step inherited t obj))
      = map (\<lambda>a. (name a, colorIndex a)) (counts t)"
    unfolding cnt by (rule bump_preserves)
  from assms(1) show ?thesis
    by (simp only: in_order_def c1 c2 c3)
qed

lemma map_of_snoc_fresh:
  assumes "n \<notin> fst ` set ps"
  shows "map_of (ps @ [(n, v)]) = (map_of ps)(n \<mapsto> v)"
proof -
  have "map_of ps n = None"
    using assms by (simp add: map_of_eq_None_iff)
  then show ?thesis
    by (intro ext) (auto simp: map_add_def split: option.splits)
qed

lemma tally_step_new:
  assumes "in_order ds t" and "name obj \<notin> set ds" and "\<not> inherited (name obj)"
  shows "in_order (ds @ [name obj]) (tally_step inherited t obj)"
proof -
  let ?n = "name obj" and ?c = "length ds mod 8"
  have cc: "colorCounter t = length ds"
    and ncm: "nameColorMap t = map_of (zip ds (map (\<lambda>k. k mod 8) [0..<length ds]))"
    and cs: "map (\<lambda>a. (name a, colorIndex a)) (counts t) = zip ds (map (\<lambda>k. Some (k mod 8)) [0..<length ds])"
    using assms(1) by (simp_all add: in_order_def)
  have 1: "nameColorMap t ?n = None"
    using in_order_lookup [OF assms(1)] assms(2) by simp
  have 2: "find (\<lambda>a. name a = ?n) (counts t) = None"
    using in_order_find [OF assms(1)] assms(2) by simp
  let ?entry = "\<lparr>name = ?n, confidence = confidence obj, count = 0, colorIndex = Some ?c\<rparr>"
  have step: "tally_step inherited t obj =
      \<lparr>nameColorMap = (nameColorMap t)(?n \<mapsto> ?c), colorCounter = length ds + 1,
       counts = map (\<lambda>a. if name a = ?n then a\<lparr>count := count a + 1\<rparr> else a) (counts t @ [?entry])\<rparr>"
    using 1 2 assms(3) cc by (simp add: tally_step_def Let_def length_BOX_COLORS)
  have z: "zip (ds @ [?n]) (map f [0..<length (ds @ [?n])]) = zip ds (map f [0..<length ds]) @ [(?n, f (length ds))]"
    for f :: "nat \<Rightarrow> 'b"
    by simp
  have fresh: "?n \<notin> fst ` set (zip ds (map (\<lambda>k. k mod 8) [0..<length ds]))"
    using assms(2) by (auto dest: set_zip_leftD)
  have c1: "colorCounter (tally_step inherited t obj) = length (ds @ [?n])"
    by (simp add: step)
  have "nameColorMap (tally_step inherited t obj) = (nameColorMap t)(?n \<mapsto> ?c)"
    by (simp add: step)
  also have "\<dots> = map_of (zip ds (map (\<lambda>k. k mod 8) [0..<length ds]) @ [(?n, ?c)])"
    unfolding ncm by (rule map_of_snoc_fresh [OF fresh, symmetric])
  also have "\<dots> = map_of (zip (ds @ [?n]) (map (\<lambda>k. k mod 8) [0..<length (ds @ [?n])]))"
    by (simp only: z)
  finally have c2: "nameColorMap (tally_step inherited t obj)
      = map_of (zip (ds @ [?n]) (map (\<lambda>k. k mod 8) [0..<length (ds @ [?n])]))" .
  have cnt: "counts (tally_step inherited t obj)
      = map (\<lambda>a. if name a = ?n then a\<lparr>count := count a + 1\<rparr> else a) (counts t @ [?entry])"
    by (simp add: step)
  have "map (\<lambda>a. (name a, colorIndex a)) (counts (tally_step inherited t obj))
      = map (\<lambda>a. (name a, colorIndex a)) (counts t @ [?entry])"
    unfolding cnt by (rule bump_preserves)
  also have "\<dots> = zip ds (map (\<lambda>k. Some (k mod 8)) [0..<length ds]) @ [(?n, Some ?c)]"
    by (simp add: cs)
  also have "\<dots> = zip (ds @ [?n]) (map (\<lambda>k. Some (k mod 8)) [0..<length (ds @ [?n])])"
    by (simp only: z)
  finally have c3: "map (\<lambda>a. (name a, colorIndex a)) (counts (tally_step inherited t obj))
      = zip (ds @ [?n]) (map (\<lambda>k. Some (k mod 8)) [0..<length (ds @ [?n])])" .
  from c1 c2 c3 show ?thesis
    unfolding in_order_def by (intro conjI)
qed

lemma tally_in_order:
  assumes "\<forall>obj \<in> set objs. \<not> inherited (name obj)"
  shows "in_order (first_occurrences (map name objs))
           (foldl (tally_step inherited) \<lparr>nameColorMap = Map.empty, colorCounter = 0, counts = []\<rparr> objs)"
  using assms
proof (induction objs rule: rev_induct)
  case Nil
  show ?case by (simp add: in_order_def first_occurrences_def)
next
  case (snoc obj objs)
  then have ih: "in_order (first_occurrences (map name objs))
      (foldl (tally_step inherited) \<lparr>nameColorMap = Map.empty, colorCounter = 0, counts = []\<rparr> objs)"
    and ni: "\<not> inherited (name obj)"
    by simp_all
  show ?case
  proof (cases "name obj \<in> set (map name objs)")
    case True
    then have "name obj \<in> set (first_occurrences (map name objs))"
      by (simp add: set_first_occurrences)
    from tally_step_old [where inherited = inherited and obj = obj, OF ih this] True show ?thesis
      by (simp add: first_occurrences_snoc)
  next
    case False
    then have "name obj \<notin> set (first_occurrences (map name objs))"
      by (simp add: set_first_occurrences)
    from tally_step_new [where inherited = inherited and obj = obj, OF ih this ni] False show ?thesis
      by (simp add: first_occurrences_snoc)
  qed
qed

lemma find_by_name:
  "distinct (map name as) \<Longrightarrow> k < length as \<Longrightarrow> find (\<lambda>a. name a = name (as ! k)) as = Some (as ! k)"
proof (induction as arbitrary: k)
  case Nil
  then show ?case by simp
next
  case (Cons a as)
  show ?case
  proof (cases k)
    case 0
    then show ?thesis by simp
  next
    case (Suc j)
    with Cons.prems have j: "j < length as"
      by simp
    then have "name (as ! j) \<in> name ` set as"
      by (intro imageI nth_mem)
    with Cons.prems have "name (as ! j) \<noteq> name a"
      by auto
    with Cons j Suc show ?thesis by auto
  qed
qed

lemma colorIndexOf_in_order:
  assumes ni: "\<forall>obj \<in> set (objects result). \<not> inherited (name obj)"
    and k: "k < length (first_occurrences (map name (objects result)))"
    and nm: "name obj = first_occurrences (map name (objects result)) ! k"
  shows "colorIndexOf inherited result obj = k mod 8"
proof -
  let ?ds = "first_occurrences (map name (objects result))"
  let ?t = "foldl (tally_step inherited) \<lparr>nameColorMap = Map.empty, colorCounter = 0, counts = []\<rparr> (objects result)"
  have io: "in_order ?ds ?t"
    using ni by (rule tally_in_order)
  have names: "map name (counts ?t) = ?ds"
    using io by (rule in_order_names)
  then have len: "length (counts ?t) = length ?ds"
    by (metis length_map)
  have dist: "distinct (map name (counts ?t))"
    unfolding names by (rule distinct_first_occurrences)
  have "name (counts ?t ! k) = ?ds ! k"
    using names k len by (metis nth_map)
  with nm have "find (\<lambda>a. name a = name obj) (counts ?t) = Some (counts ?t ! k)"
    using find_by_name [OF dist, of k] k len by simp
  moreover have "colorIndex (counts ?t ! k) = Some (k mod 8)"
  proof -
    have "map (\<lambda>a. (name a, colorIndex a)) (counts ?t) ! k
        = zip ?ds (map (\<lambda>k. Some (k mod 8)) [0..<length ?ds]) ! k"
      using io by (simp add: in_order_def)
    then show ?thesis using k len by simp
  qed
  ultimately show ?thesis
    by (simp add: colorIndexOf_def aggregatedObjects_def)
qed

lemma length_BOX_COLORS_webcam: "length BOX_COLORS_webcam = 7"
  by (simp add: BOX_COLORS_webcam_def)

lemma length_imageBoxes: "length (imageBoxes inherited result) = length (objects result)"
  by (simp add: imageBoxes_def)

lemma length_webcamBoxes: "length (webcamBoxes result) = length (objects result)"
  by (simp add: webcamBoxes_def)

lemma nth_imageBoxes:
  "i < length (objects result) \<Longrightarrow>
     imageBoxes inherited result ! i
       = box_div i (objects result ! i) (at_index BOX_COLORS (colorIndexOf inherited result (objects result ! i)))"
  by (simp add: imageBoxes_def nth_enumerate_eq)

lemma nth_webcamBoxes:
  "i < length (objects result) \<Longrightarrow>
     webcamBoxes result ! i = box_div i (objects result ! i) (at_index BOX_COLORS_webcam (i mod 7))"
  by (simp add: webcamBoxes_def nth_enumerate_eq length_BOX_COLORS_webcam)

lemma box_div_simps:
  "key (box_div i obj c) = i" "borderColor (box_div i obj c) = c" "label (box_div i obj c) = name obj"
  by (simp_all add: box_div_def Let_def)

lemma colorIndexOf_name:
  "name obj = name obj' \<Longrightarrow> colorIndexOf inherited result obj = colorIndexOf inherited result obj'"
  by (simp add: colorIndexOf_def)

lemma pets_names: "map name pets = [''cat'', ''dog'', ''cat'']"
  by (simp add: pets_def detected_def)

text \<open>
  C4, as the code has it.  In ImageAnalyzer.tsx two objects of the same name have the same
  colour.  When no name of the result is one that an object literal inherits, the colours
  follow the first occurrences of the names: every object with the \<open>k\<close>-th distinct name
  (counted from 0) has the colour of index \<open>k mod 8\<close> of the palette of eight, so the first
  eight distinct names have eight different colours and the ninth has index 0 again.  In WebcamAnalyzer.tsx the colour of a box follows its
  position: the \<open>i\<close>-th box has the colour of index \<open>i mod 7\<close> of the palette of seven,
  whatever the names.
\<close>

theorem overlay_colours:
  "(\<forall>i < length (objects result). \<forall>j < length (objects result).
        name (objects result ! i) = name (objects result ! j) \<longrightarrow>
        borderColor (imageBoxes inherited result ! i) = borderColor (imageBoxes inherited result ! j))
   \<and> ((\<forall>obj \<in> set (objects result). \<not> inherited (name obj)) \<longrightarrow>
        (\<forall>k < length (first_occurrences (map name (objects result))). \<forall>i < length (objects result).
            name (objects result ! i) = first_occurrences (map name (objects result)) ! k \<longrightarrow>
            colorIndexOf inherited result (objects result ! i) = k mod 8
          \<and> borderColor (imageBoxes inherited result ! i) = Some (BOX_COLORS ! (k mod 8)))
      \<and> (8 < length (first_occurrences (map name (objects result))) \<longrightarrow>
           (\<forall>i < length (objects result).
              name (objects result ! i) = first_occurrences (map name (objects result)) ! 8 \<longrightarrow>
              colorIndexOf inherited result (objects result ! i) = 0))
      \<and> (\<forall>i < length (objects result). \<forall>j < length (objects result). \<forall>k < 8. \<forall>k' < 8.
            k < length (first_occurrences (map name (objects result)))
          \<and> k' < length (first_occurrences (map name (objects result))) \<and> k \<noteq> k'
          \<and> name (objects result ! i) = first_occurrences (map name (objects result)) ! k
          \<and> name (objects result ! j) = first_occurrences (map name (objects result)) ! k' \<longrightarrow>
            borderColor (imageBoxes inherited result ! i) \<noteq> borderColor (imageBoxes inherited result ! j)))
   \<and> (\<forall>i < length (objects result).
        borderColor (webcamBoxes result ! i) = Some (BOX_COLORS_webcam ! (i mod 7)))"
proof (intro conjI impI allI)
  fix i j
  assume "i < length (objects result)" "j < length (objects result)"
    "name (objects result ! i) = name (objects result ! j)"
  then show "borderColor (imageBoxes inherited result ! i) = borderColor (imageBoxes inherited result ! j)"
    by (simp add: nth_imageBoxes box_div_simps colorIndexOf_name [of "objects result ! i" "objects result ! j"])
next
  fix k i
  assume ni: "\<forall>obj \<in> set (objects result). \<not> inherited (name obj)"
    and k: "k < length (first_occurrences (map name (objects result)))"
    and i: "i < length (objects result)"
    and nm: "name (objects result ! i) = first_occurrences (map name (objects result)) ! k"
  from colorIndexOf_in_order [OF ni k nm]
  show c: "colorIndexOf inherited result (objects result ! i) = k mod 8" .
  show "borderColor (imageBoxes inherited result ! i) = Some (BOX_COLORS ! (k mod 8))"
    using i by (simp add: nth_imageBoxes box_div_simps c at_index_def length_BOX_COLORS)
next
  fix i
  assume ni: "\<forall>obj \<in> set (objects result). \<not> inherited (name obj)"
    and k: "8 < length (first_occurrences (map name (objects result)))"
    and i: "i < length (objects result)"
    and nm: "name (objects result ! i) = first_occurrences (map name (objects result)) ! 8"
  from colorIndexOf_in_order [OF ni k nm]
  show "colorIndexOf inherited result (objects result ! i) = 0"
    by simp
next
  fix i j k k'
  assume ni: "\<forall>obj \<in> set (objects result). \<not> inherited (name obj)"
    and i: "i < length (objects result)" and j: "j < length (objects result)"
    and k: "k < 8" "k' < 8"
    and h: "k < length (first_occurrences (map name (objects result)))
          \<and> k' < length (first_occurrences (map name (objects result))) \<and> k \<noteq> k'
          \<and> name (objects result ! i) = first_occurrences (map name (objects result)) ! k
          \<and> name (objects result ! j) = first_occurrences (map name (objects result)) ! k'"
  from h colorIndexOf_in_order [OF ni, of k "objects result ! i"]
    colorIndexOf_in_order [OF ni, of k' "objects result ! j"] k
  have c: "colorIndexOf inherited result (objects result ! i) = k"
    "colorIndexOf inherited result (objects result ! j) = k'"
    by simp_all
  have "distinct BOX_COLORS"
    by (simp add: BOX_COLORS_def)
  with k h have "BOX_COLORS ! k \<noteq> BOX_COLORS ! k'"
    by (simp add: nth_eq_iff_index_eq length_BOX_COLORS)
  with i j k show "borderColor (imageBoxes inherited result ! i) \<noteq> borderColor (imageBoxes inherited result ! j)"
    by (simp add: nth_imageBoxes box_div_simps c at_index_def length_BOX_COLORS)
next
  fix i
  assume "i < length (objects result)"
  then show "borderColor (webcamBoxes result ! i) = Some (BOX_COLORS_webcam ! (i mod 7))"
    by (simp add: nth_webcamBoxes box_div_simps at_index_def length_BOX_COLORS_webcam)
qed

text \<open>
  C4 as stated fails in WebcamAnalyzer.tsx: of the objects cat, dog, cat the two named cat
  get the first and the third colour of the palette.
\<close>

theorem webcam_colours_follow_position:
  "name (pets ! 0) = name (pets ! 2)
   \<and> map borderColor (webcamBoxes (shown pets)) = [Some ''#ef4444'', Some ''#f59e0b'', Some ''#10b981'']
   \<and> borderColor (webcamBoxes (shown pets) ! 0) \<noteq> borderColor (webcamBoxes (shown pets) ! 2)"
  by (simp add: webcamBoxes_def shown_def pets_def detected_def enumerate_eq_zip box_div_def Let_def
      at_index_def BOX_COLORS_webcam_def upt_rec [of 0] upt_rec [of 1] upt_rec [of 2] upt_rec [of 3])

theorem overlay_colours_witness:
  "map (colorIndexOf in_prototype (shown pets)) pets = [0, 1, 0]
   \<and> colorIndexOf in_prototype (shown nine_names) (nine_names ! 8) = 0
   \<and> borderColor (webcamBoxes (shown pets) ! 2) = Some ''#10b981''"
proof (intro conjI)
  have ni: "\<forall>obj \<in> set (objects (shown pets)). \<not> in_prototype (name obj)"
    by (simp add: shown_def pets_def detected_def in_prototype_def prototype_names_def)
  have ds: "first_occurrences (map name pets) = [''cat'', ''dog'']"
    by (simp add: pets_names first_occurrences_def)
  have objs: "objects (shown pets) = pets" "length pets = 3"
    by (simp_all add: shown_def pets_def)
  note t = overlay_colours [where result = "shown pets" and inherited = in_prototype,
      THEN conjunct2, THEN conjunct1, THEN mp, OF ni, THEN conjunct1, rule_format, unfolded ds objs]
  have "colorIndexOf in_prototype (shown pets) (pets ! 0) = 0"
    "colorIndexOf in_prototype (shown pets) (pets ! 1) = 1"
    "colorIndexOf in_prototype (shown pets) (pets ! 2) = 0"
    using t [of 0 0] t [of 1 1] t [of 0 2] by (simp_all add: pets_def detected_def)
  then show "map (colorIndexOf in_prototype (shown pets)) pets = [0, 1, 0]"
    by (simp add: pets_def)
next
  have ni: "\<forall>obj \<in> set (objects (shown nine_names)). \<not> in_prototype (name obj)"
    by (simp add: shown_def nine_names_def detected_def in_prototype_def prototype_names_def)
  have ds: "first_occurrences (map name nine_names)
      = [''a'', ''b'', ''c'', ''d'', ''e'', ''f'', ''g'', ''h'', ''i'']"
    by (simp add: nine_names_def detected_def first_occurrences_def)
  have objs: "objects (shown nine_names) = nine_names" "length nine_names = 9"
    by (simp_all add: shown_def nine_names_def)
  from overlay_colours [where result = "shown nine_names" and inherited = in_prototype,
      THEN conjunct2, THEN conjunct1, THEN mp, OF ni, THEN conjunct2, THEN conjunct1,
      rule_format, unfolded ds objs, of 8]
  show "colorIndexOf in_prototype (shown nine_names) (nine_names ! 8) = 0"
    by (simp add: nine_names_def detected_def)
next
  from overlay_colours [where result = "shown pets", THEN conjunct2, THEN conjunct2, rule_format, of 2]
  show "borderColor (webcamBoxes (shown pets) ! 2) = Some ''#10b981''"
    by (simp add: shown_def pets_def BOX_COLORS_webcam_def)
qed

text \<open>
  Why the order of assignment is stated for names that are not inherited: for an object
  named \<open>constructor\<close> both dictionaries already answer, so no colour is assigned, the
  overlay falls back to index 0, and the next name gets index 0 as well.
\<close>

lemma prototype_name_takes_first_colour:
  "map (colorIndexOf in_prototype (shown [detected ''constructor'' [], detected ''cat'' []]))
     [detected ''constructor'' [], detected ''cat'' []] = [0, 0]"
  by (simp add: colorIndexOf_def aggregatedObjects_def shown_def detected_def tally_step_def Let_def
      in_prototype_def prototype_names_def BOX_COLORS_def)

lemma box_div_four:
  assumes "box_2d obj = [ymin, xmin, ymax, xmax]"
  shows "top_pct (box_div i obj c) = Some (ymin / 10)" "left_pct (box_div i obj c) = Some (xmin / 10)"
    "height_pct (box_div i obj c) = Some ((ymax - ymin) / 10)"
    "width_pct (box_div i obj c) = Some ((xmax - xmin) / 10)"
  using assms by (simp_all add: box_div_def Let_def at_index_def tenth_def minus_opt_def)

lemma normalizedRect_four:
  assumes "box_2d obj = [ymin, xmin, ymax, xmax]"
  shows "normalizedRect (box_div i obj c) = Some (ymin / 1000, xmin / 1000, ymax / 1000, xmax / 1000)"
  by (simp add: normalizedRect_def box_div_four [OF assms] field_simps)

lemma four_elements: "length xs = 4 \<Longrightarrow> \<exists>a b c d. xs = [a, b, c, d]"
  by (cases xs; cases "tl xs"; cases "tl (tl xs)"; cases "tl (tl (tl xs))") auto

text \<open>
  C7: the projection of a box with the coordinates \<open>[ymin, xmin, ymax, xmax]\<close> on the scale
  of 0 to 1000 to the rectangle that the overlay draws divides each coordinate by 1000:
  as fractions of the image the edges of the rectangle are \<open>ymin / 1000\<close>, \<open>xmin / 1000\<close>,
  \<open>ymax / 1000\<close>, \<open>xmax / 1000\<close>.  (The style holds them as percentages of position and
  extent, \<open>top = ymin / 10\<close>, \<open>left = xmin / 10\<close>, \<open>height = (ymax - ymin) / 10\<close> and
  \<open>width = (xmax - xmin) / 10\<close>.)  The projection is a function of the box alone, there is
  one rectangle per object, in the order of the objects and with the object's name as its
  label, and multiplying the edges by 1000 gives the coordinates back, numbers being exact.
  The box \<open>[100, 200, 400, 600]\<close> projects to \<open>(0.1, 0.2, 0.4, 0.6)\<close>, from which the inverse
  scale recovers it.
\<close>

theorem overlay_projection:
  "(box_2d obj = [ymin, xmin, ymax, xmax] \<longrightarrow>
        top_pct (box_div i obj c) = Some (ymin / 10) \<and> left_pct (box_div i obj c) = Some (xmin / 10)
      \<and> height_pct (box_div i obj c) = Some ((ymax - ymin) / 10)
      \<and> width_pct (box_div i obj c) = Some ((xmax - xmin) / 10)
      \<and> normalizedRect (box_div i obj c) = Some (ymin / 1000, xmin / 1000, ymax / 1000, xmax / 1000)
      \<and> inverse_scale (ymin / 1000, xmin / 1000, ymax / 1000, xmax / 1000) = box_2d obj)
   \<and> length (imageBoxes inherited result) = length (objects result)
   \<and> map label (imageBoxes inherited result) = map name (objects result)
   \<and> map key (imageBoxes inherited result) = [0..<length (objects result)]
   \<and> (\<forall>k < length (objects result). length (box_2d (objects result ! k)) = 4 \<longrightarrow>
        (\<exists>r. normalizedRect (imageBoxes inherited result ! k) = Some r
           \<and> inverse_scale r = box_2d (objects result ! k)))
   \<and> (box_2d obj = [100, 200, 400, 600] \<longrightarrow>
        normalizedRect (box_div i obj c) = Some (1 / 10, 2 / 10, 4 / 10, 6 / 10)
      \<and> inverse_scale (1 / 10, 2 / 10, 4 / 10, 6 / 10) = [100, 200, 400, 600])"
proof (intro conjI impI allI)
  assume b: "box_2d obj = [ymin, xmin, ymax, xmax]"
  from box_div_four [OF b]
  show "top_pct (box_div i obj c) = Some (ymin / 10)" "left_pct (box_div i obj c) = Some (xmin / 10)"
    "height_pct (box_div i obj c) = Some ((ymax - ymin) / 10)"
    "width_pct (box_div i obj c) = Some ((xmax - xmin) / 10)"
    by simp_all
  show "normalizedRect (box_div i obj c) = Some (ymin / 1000, xmin / 1000, ymax / 1000, xmax / 1000)"
    using b by (rule normalizedRect_four)
  show "inverse_scale (ymin / 1000, xmin / 1000, ymax / 1000, xmax / 1000) = box_2d obj"
    by (simp add: b)
next
  show "length (imageBoxes inherited result) = length (objects result)"
    by (rule length_imageBoxes)
  show "map label (imageBoxes inherited result) = map name (objects result)"
    by (intro nth_equalityI) (simp_all add: length_imageBoxes nth_imageBoxes box_div_simps)
  show "map key (imageBoxes inherited result) = [0..<length (objects result)]"
    by (intro nth_equalityI) (simp_all add: length_imageBoxes nth_imageBoxes box_div_simps)
next
  fix k
  assume k: "k < length (objects result)" and "length (box_2d (objects result ! k)) = 4"
  from four_elements [OF this(2)] obtain ymin xmin ymax xmax where
    b: "box_2d (objects result ! k) = [ymin, xmin, ymax, xmax]"
    by blast
  have "normalizedRect (imageBoxes inherited result ! k)
      = Some (ymin / 1000, xmin / 1000, ymax / 1000, xmax / 1000)"
    unfolding nth_imageBoxes [OF k] using b by (rule normalizedRect_four)
  moreover have "inverse_scale (ymin / 1000, xmin / 1000, ymax / 1000, xmax / 1000)
      = box_2d (objects result ! k)"
    by (simp add: b)
  ultimately show "\<exists>r. normalizedRect (imageBoxes inherited result ! k) = Some r
      \<and> inverse_scale r = box_2d (objects result ! k)"
    by blast
next
  assume "box_2d obj = [100, 200, 400, 600]"
  from normalizedRect_four [OF this, of i c]
  show "normalizedRect (box_div i obj c) = Some (1 / 10, 2 / 10, 4 / 10, 6 / 10)"
    by simp
  show "inverse_scale (1 / 10, 2 / 10, 4 / 10, 6 / 10) = [100, 200, 400, 600]"
    by simp
qed

theorem overlay_projection_witness:
  "normalizedRect (imageBoxes in_prototype (shown pets) ! 0) = Some (1 / 10, 2 / 10, 4 / 10, 6 / 10)
   \<and> inverse_scale (1 / 10, 2 / 10, 4 / 10, 6 / 10) = [100, 200, 400, 600]
   \<and> map label (imageBoxes in_prototype (shown pets)) = [''cat'', ''dog'', ''cat'']
   \<and> normalizedRect (box_div 0 (pets ! 0) None) = Some (1 / 10, 2 / 10, 4 / 10, 6 / 10)"
proof (intro conjI)
  have b: "box_2d (pets ! 0) = [100, 200, 400, 600]"
    by (simp add: pets_def detected_def)
  have i: "imageBoxes in_prototype (shown pets) ! 0
      = box_div 0 (pets ! 0) (at_index BOX_COLORS (colorIndexOf in_prototype (shown pets) (pets ! 0)))"
    using nth_imageBoxes [of 0 "shown pets" in_prototype] by (simp add: shown_def pets_def)
  from overlay_projection [where obj = "pets ! 0", THEN conjunct1, rule_format, OF b]
  have "normalizedRect (imageBoxes in_prototype (shown pets) ! 0)
      = Some (100 / 1000, 200 / 1000, 400 / 1000, 600 / 1000)"
    unfolding i by blast
  then show "normalizedRect (imageBoxes in_prototype (shown pets) ! 0) = Some (1 / 10, 2 / 10, 4 / 10, 6 / 10)"
    by simp
  show "inverse_scale (1 / 10, 2 / 10, 4 / 10, 6 / 10) = [100, 200, 400, 600]"
    by simp
  from overlay_projection [where result = "shown pets" and inherited = in_prototype,
      THEN conjunct2, THEN conjunct2, THEN conjunct1]
  show "map label (imageBoxes in_prototype (shown pets)) = [''cat'', ''dog'', ''cat'']"
    by (simp add: shown_def pets_names)
  from overlay_projection [where obj = "pets ! 0" and i = 0 and c = None,
      THEN conjunct2, THEN conjunct2, THEN conjunct2, THEN conjunct2, THEN conjunct2,
      THEN mp, OF b, THEN conjunct1]
  show "normalizedRect (box_div 0 (pets ! 0) None) = Some (1 / 10, 2 / 10, 4 / 10, 6 / 10)" .
qed

end
